theory Spec2Isabelle
  imports Complex_Main
begin

section \<open>Python values and exceptions\<close>

text \<open>
  The training script \<^verbatim>\<open>train.py\<close> is a single function \<^verbatim>\<open>train_model\<close> and the
  \<^verbatim>\<open>__main__\<close> block that calls it. Its control flow is embedded here: exceptions are
  values, the calls into the tensor framework and the logging backend are parameters
  (records of functions, or outcomes carried by a batch), and every effect the script has on
  the outside is an event appended to a trace.

  An exception of the run. \<^verbatim>\<open>RuntimeError\<close> carries \<^verbatim>\<open>str(e)\<close>; its subclasses (the
  framework's out-of-memory error is one) are caught by \<^verbatim>\<open>except RuntimeError\<close> and are
  values of the same constructor. \<^verbatim>\<open>OtherException\<close> is any other class, by name.
\<close>

datatype exn =
    AssertionError
  | AttributeError
  | KeyError
  | ValueError
  | ZeroDivisionError
  | FileNotFoundError
  | RuntimeError string
  | OtherException string

text \<open>\<^verbatim>\<open>sub in s\<close> on Python strings.\<close>

fun str_contains :: "string \<Rightarrow> string \<Rightarrow> bool" where
  "str_contains sub [] = (sub = [])"
| "str_contains sub (c # cs) = (take (length sub) (c # cs) = sub \<or> str_contains sub cs)"

text \<open>\<^verbatim>\<open>int(x)\<close> on a float truncates toward zero.\<close>

definition py_int :: "real \<Rightarrow> int" where
  "py_int x = (if 0 \<le> x then \<lfloor>x\<rfloor> else \<lceil>x\<rceil>)"

text \<open>
  \<^verbatim>\<open>xs[lo:hi]\<close>: a negative bound counts from the end, and both bounds are clamped to the
  list.
\<close>

definition slice_bound :: "nat \<Rightarrow> int \<Rightarrow> nat" where
  "slice_bound n i = (if i < 0 then nat (max (i + int n) 0) else min (nat i) n)"

definition py_slice :: "'a list \<Rightarrow> int \<Rightarrow> int \<Rightarrow> 'a list" where
  "py_slice xs lo hi =
     (let a = slice_bound (length xs) lo; b = slice_bound (length xs) hi
      in take (b - a) (drop a xs))"

section \<open>The model object\<close>

text \<open>
  \<^verbatim>\<open>__main__\<close> builds a U-Net and wraps it: \<^verbatim>\<open>model = torch.nn.DataParallel(model, ...)\<close>.
  The U-Net has the attributes \<^verbatim>\<open>n_channels\<close>, \<^verbatim>\<open>n_classes\<close> and the method
  \<^verbatim>\<open>use_checkpointing\<close>; the wrapper has the attribute \<^verbatim>\<open>module\<close> (the wrapped model) and
  none of the U-Net's. Reading an attribute an object does not have raises
  \<^verbatim>\<open>AttributeError\<close>.
\<close>

record 't unet =
  n_channels :: int
  n_classes :: int
  checkpointing :: bool
  parameters :: "(string \<times> 't) list"

datatype 't model = UNet "'t unet" | DataParallel "'t model"

fun attr_module :: "'t model \<Rightarrow> exn + 't model" where
  "attr_module (DataParallel m) = Inr m"
| "attr_module (UNet u) = Inl AttributeError"

fun attr_n_channels :: "'t model \<Rightarrow> exn + int" where
  "attr_n_channels (UNet u) = Inr (n_channels u)"
| "attr_n_channels (DataParallel m) = Inl AttributeError"

fun attr_n_classes :: "'t model \<Rightarrow> exn + int" where
  "attr_n_classes (UNet u) = Inr (n_classes u)"
| "attr_n_classes (DataParallel m) = Inl AttributeError"

text \<open>\<^verbatim>\<open>model.module.n_channels\<close> and \<^verbatim>\<open>model.module.n_classes\<close>.\<close>

definition module_n_channels :: "'t model \<Rightarrow> exn + int" where
  "module_n_channels m = (case attr_module m of Inl e \<Rightarrow> Inl e | Inr inner \<Rightarrow> attr_n_channels inner)"

definition module_n_classes :: "'t model \<Rightarrow> exn + int" where
  "module_n_classes m = (case attr_module m of Inl e \<Rightarrow> Inl e | Inr inner \<Rightarrow> attr_n_classes inner)"

text \<open>\<^verbatim>\<open>model.use_checkpointing()\<close>.\<close>

fun use_checkpointing :: "'t model \<Rightarrow> exn + 't model" where
  "use_checkpointing (UNet u) = Inr (UNet (u\<lparr>checkpointing := True\<rparr>))"
| "use_checkpointing (DataParallel m) = Inl AttributeError"

section \<open>Checkpoints\<close>

text \<open>
  A state dict is an ordered mapping from key to value. \<^verbatim>\<open>state_dict()\<close> of a module lists
  its own parameters under their names and those of a child module under the child's name
  followed by a dot; the one child of the \<^verbatim>\<open>DataParallel\<close> wrapper is named \<^verbatim>\<open>module\<close>.
  The checkpoint file holds the state dict and, under the key \<^verbatim>\<open>mask_values\<close>, the
  dataset's list of mask values.
\<close>

datatype 't ckpt_value = Tensor 't | MaskValues "int list"

type_synonym 't state_dict = "(string \<times> 't ckpt_value) list"

fun state_dict :: "'t model \<Rightarrow> 't state_dict" where
  "state_dict (UNet u) = map (\<lambda>(k, v). (k, Tensor v)) (parameters u)"
| "state_dict (DataParallel m) = map (\<lambda>(k, v). (''module.'' @ k, v)) (state_dict m)"

text \<open>\<^verbatim>\<open>d[k] = v\<close> and \<^verbatim>\<open>del d[k]\<close> on an ordered dict.\<close>

fun dict_set :: "('k \<times> 'v) list \<Rightarrow> 'k \<Rightarrow> 'v \<Rightarrow> ('k \<times> 'v) list" where
  "dict_set [] k v = [(k, v)]"
| "dict_set ((k', v') # d) k v = (if k' = k then (k, v) # d else (k', v') # dict_set d k v)"

definition dict_del :: "('k \<times> 'v) list \<Rightarrow> 'k \<Rightarrow> exn + ('k \<times> 'v) list" where
  "dict_del d k = (if k \<in> fst ` set d then Inr (filter (\<lambda>(k', v). k' \<noteq> k) d) else Inl KeyError)"

text \<open>
  The checkpoint \<^verbatim>\<open>train_model\<close> writes at the end of an epoch:
  \<^verbatim>\<open>state_dict = model.state_dict(); state_dict["mask_values"] = dataset.mask_values\<close>.
\<close>

definition checkpoint_of :: "'t model \<Rightarrow> int list \<Rightarrow> 't state_dict" where
  "checkpoint_of m mask_values = dict_set (state_dict m) ''mask_values'' (MaskValues mask_values)"

text \<open>
  \<^verbatim>\<open>load_state_dict\<close> (strict, the default): the keys given must be the module's own keys,
  each with a tensor; otherwise it raises a \<^verbatim>\<open>RuntimeError\<close>. On success every parameter
  takes the value stored under its key.
\<close>

fun tensor_at :: "'t state_dict \<Rightarrow> string \<Rightarrow> 't option" where
  "tensor_at d k = (case map_of d k of Some (Tensor v) \<Rightarrow> Some v | _ \<Rightarrow> None)"

fun strip_module :: "'t state_dict \<Rightarrow> 't state_dict" where
  "strip_module d = map (\<lambda>(k, v). (drop (length ''module.'') k, v)) d"

fun assign_parameters :: "'t model \<Rightarrow> 't state_dict \<Rightarrow> 't model" where
  "assign_parameters (UNet u) d =
     UNet (u\<lparr>parameters := map (\<lambda>(k, v). (k, case tensor_at d k of Some w \<Rightarrow> w | None \<Rightarrow> v)) (parameters u)\<rparr>)"
| "assign_parameters (DataParallel m) d = DataParallel (assign_parameters m (strip_module d))"

definition load_state_dict :: "'t model \<Rightarrow> 't state_dict \<Rightarrow> exn + 't model" where
  "load_state_dict m d =
     (if set (map fst d) = set (map fst (state_dict m)) \<and> list_all (\<lambda>(k, v). tensor_at d k \<noteq> None) d
      then Inr (assign_parameters m d)
      else Inl (RuntimeError ''Error(s) in loading state_dict''))"

text \<open>
  The load path of \<^verbatim>\<open>__main__\<close>, on the model before it is wrapped:
  \<^verbatim>\<open>state_dict = torch.load(args.load); del state_dict["mask_values"];
  model.load_state_dict(state_dict)\<close>.
\<close>

definition load_checkpoint :: "'t model \<Rightarrow> 't state_dict \<Rightarrow> exn + 't model" where
  "load_checkpoint m ckpt =
     (case dict_del ckpt ''mask_values'' of
        Inl e \<Rightarrow> Inl e
      | Inr d \<Rightarrow> load_state_dict m d)"

section \<open>Splitting the dataset\<close>

text \<open>
  \<^verbatim>\<open>n_val = int(len(dataset) * val_percent); n_train = len(dataset) - n_val\<close>.
  The dataset is its length: a sample is its index. A float is the real number it stands
  for, and the product of two floats is their exact product rounded to a float by \<open>rnd\<close>.
\<close>

definition split_sizes :: "(real \<Rightarrow> real) \<Rightarrow> nat \<Rightarrow> real \<Rightarrow> int \<times> int" where
  "split_sizes rnd len_dataset val_percent =
     (let n_val = py_int (rnd (real len_dataset * val_percent));
          n_train = int len_dataset - n_val
      in (n_train, n_val))"

text \<open>
  The framework's random generators: \<^verbatim>\<open>torch.Generator().manual_seed(seed)\<close> makes a
  generator from a seed, and \<^verbatim>\<open>randperm(n, generator=g)\<close> draws an order of \<open>0..<n\<close>
  from a generator.
\<close>

record 'g generator_api =
  manual_seed :: "nat \<Rightarrow> 'g"
  randperm :: "'g \<Rightarrow> nat \<Rightarrow> nat list"

text \<open>
  \<^verbatim>\<open>random_split(dataset, lengths, generator)\<close>: the lengths must sum to the dataset's
  length; the subsets are consecutive slices
  \<^verbatim>\<open>indices[offset - length : offset]\<close> of one random order, \<open>offset\<close> running over the
  partial sums of the lengths.
\<close>

fun subsets :: "nat list \<Rightarrow> int \<Rightarrow> int list \<Rightarrow> nat list list" where
  "subsets indices acc [] = []"
| "subsets indices acc (l # ls) =
     (let offset = acc + l
      in py_slice indices (offset - l) offset # subsets indices offset ls)"

definition random_split :: "'g generator_api \<Rightarrow> nat \<Rightarrow> int list \<Rightarrow> 'g \<Rightarrow> exn + nat list list" where
  "random_split api len_dataset lengths generator =
     (if sum_list lengths \<noteq> int len_dataset then Inl ValueError
      else Inr (subsets (randperm api generator (nat (sum_list lengths))) 0 lengths))"

text \<open>
  Step 2 of \<^verbatim>\<open>train_model\<close>: the sizes, then
  \<^verbatim>\<open>train_set, val_set = random_split(dataset, [n_train, n_val],
  generator=torch.Generator().manual_seed(0))\<close>.
\<close>

definition split_dataset ::
  "(real \<Rightarrow> real) \<Rightarrow> 'g generator_api \<Rightarrow> nat \<Rightarrow> real \<Rightarrow> exn + (nat list \<times> nat list)" where
  "split_dataset rnd api len_dataset val_percent =
     (let (n_train, n_val) = split_sizes rnd len_dataset val_percent
      in case random_split api len_dataset [n_train, n_val] (manual_seed api 0) of
           Inl e \<Rightarrow> Inl e
         | Inr [train_set, val_set] \<Rightarrow> Inr (train_set, val_set)
         | Inr _ \<Rightarrow> Inl ValueError)"

section \<open>The data loaders\<close>

text \<open>
  A loader groups the order its sampler yields into batches: an index is appended to the
  pending batch, a batch that reaches \<open>batch_size\<close> is yielded, and what is pending at the
  end is yielded unless \<open>drop_last\<close>.
\<close>

fun batch_sampler :: "nat \<Rightarrow> bool \<Rightarrow> 'a list \<Rightarrow> 'a list \<Rightarrow> 'a list list" where
  "batch_sampler batch_size drop_last batch [] =
     (if length batch > 0 \<and> \<not> drop_last then [batch] else [])"
| "batch_sampler batch_size drop_last batch (idx # sampler) =
     (let batch' = batch @ [idx]
      in if length batch' = batch_size
         then batch' # batch_sampler batch_size drop_last [] sampler
         else batch_sampler batch_size drop_last batch' sampler)"

text \<open>
  A loader, as \<^verbatim>\<open>DataLoader(dataset, shuffle=..., drop_last=..., batch_size=...)\<close> makes it:
  the subset it reads, written as the list of its samples, and the three settings.
\<close>

record loader =
  ld_dataset :: "nat list"
  ld_shuffle :: bool
  ld_drop_last :: bool
  ld_batch_size :: nat

text \<open>
  Making a loader makes its sampler first and its batch sampler next. With
  \<^verbatim>\<open>shuffle=True\<close> the sampler is a \<^verbatim>\<open>RandomSampler\<close>, which raises \<^verbatim>\<open>ValueError\<close> for a
  dataset without samples; the batch sampler raises \<^verbatim>\<open>ValueError\<close> when the batch size is
  not positive.
\<close>

definition DataLoader :: "nat list \<Rightarrow> bool \<Rightarrow> bool \<Rightarrow> int \<Rightarrow> exn + loader" where
  "DataLoader dataset shuffle drop_last batch_size =
     (if shuffle \<and> length dataset = 0 then Inl ValueError
      else if batch_size \<le> 0 then Inl ValueError
      else Inr \<lparr>ld_dataset = dataset, ld_shuffle = shuffle, ld_drop_last = drop_last,
                ld_batch_size = nat batch_size\<rparr>)"

text \<open>
  The order of the samples in one pass. With \<^verbatim>\<open>shuffle=True\<close> the sampler draws a fresh
  random order \<open>perm\<close> of the positions of the dataset, and the samples come in that order;
  without it they come in the order of the dataset, and nothing is drawn.
\<close>

definition train_order :: "nat list \<Rightarrow> nat list \<Rightarrow> nat list" where
  "train_order train_set perm = map ((!) train_set) perm"

text \<open>One pass over a loader: the batches it yields when its sampler draws \<open>perm\<close>.\<close>

definition iterate :: "loader \<Rightarrow> nat list \<Rightarrow> nat list list" where
  "iterate ld perm =
     batch_sampler (ld_batch_size ld) (ld_drop_last ld) []
       (if ld_shuffle ld then train_order (ld_dataset ld) perm else ld_dataset ld)"

section \<open>The loss of a batch\<close>

text \<open>
  The tensor operations the loss is built from, as parameters: the two criteria and the
  dice loss, the activations, and the reshaping of logits and masks. \<open>t_add\<close> is the
  \<^verbatim>\<open>+=\<close> on the loss.
\<close>

record 't framework =
  cross_entropy :: "'t \<Rightarrow> 't \<Rightarrow> 't"
  bce_with_logits :: "'t \<Rightarrow> 't \<Rightarrow> 't"
  dice_loss :: "'t \<Rightarrow> 't \<Rightarrow> bool \<Rightarrow> 't"
  F_sigmoid :: "'t \<Rightarrow> 't"
  F_softmax :: "'t \<Rightarrow> 't"
  F_one_hot :: "'t \<Rightarrow> int \<Rightarrow> 't"
  t_squeeze :: "'t \<Rightarrow> 't"
  t_float :: "'t \<Rightarrow> 't"
  t_permute :: "'t \<Rightarrow> 't"
  t_add :: "'t \<Rightarrow> 't \<Rightarrow> 't"

datatype criterion = CrossEntropyLoss | BCEWithLogitsLoss

text \<open>
  \<^verbatim>\<open>criterion = nn.CrossEntropyLoss() if model.module.n_classes > 1 else
  nn.BCEWithLogitsLoss()\<close>, made once before the loop.
\<close>

definition make_criterion :: "int \<Rightarrow> criterion" where
  "make_criterion classes = (if classes > 1 then CrossEntropyLoss else BCEWithLogitsLoss)"

fun apply_criterion :: "'t framework \<Rightarrow> criterion \<Rightarrow> 't \<Rightarrow> 't \<Rightarrow> 't" where
  "apply_criterion fw CrossEntropyLoss x y = cross_entropy fw x y"
| "apply_criterion fw BCEWithLogitsLoss x y = bce_with_logits fw x y"

text \<open>The two branches on \<^verbatim>\<open>model.module.n_classes == 1\<close> inside the loop.\<close>

definition compute_loss :: "'t framework \<Rightarrow> criterion \<Rightarrow> int \<Rightarrow> 't \<Rightarrow> 't \<Rightarrow> 't" where
  "compute_loss fw crit classes masks_pred true_masks =
     (if classes = 1
      then t_add fw
             (apply_criterion fw crit (t_squeeze fw masks_pred) (t_float fw true_masks))
             (dice_loss fw (F_sigmoid fw (t_squeeze fw masks_pred)) (t_float fw true_masks) False)
      else t_add fw
             (apply_criterion fw crit masks_pred true_masks)
             (dice_loss fw (t_float fw (F_softmax fw masks_pred))
                (t_float fw (t_permute fw (F_one_hot fw true_masks classes))) True))"

section \<open>The training loop\<close>

text \<open>
  What the script does to the outside, in order: the calls into the model, the optimizer,
  the validation routine (with the batches of the validation loader it is given) and the
  scheduler, the records sent to the logging backend, and the checkpoints written.
  \<open>TrainLog loss step epoch\<close> is the per-batch record, \<open>DiagLog score step epoch\<close> the
  extended record of a validation round.
\<close>

datatype 't event =
    ModelTrain
  | ForwardPass
  | OptimizerStep 't
  | TrainLog 't int int
  | BuildHistograms
  | Evaluate int "nat list list"
  | SchedulerStep 't
  | DiagLog 't int int
  | SaveCheckpoint int "'t state_dict"

record 't train_state =
  global_step :: int
  trace :: "'t event list"

definition emit :: "'t event \<Rightarrow> 't train_state \<Rightarrow> 't train_state" where
  "emit ev s = s\<lparr>trace := trace s @ [ev]\<rparr>"

text \<open>
  A batch as the loader yields it, with what the outside does while it is processed: the
  channel count of its images, its masks, the result of the forward pass (the logits, or the
  exception it raises), and whether the backward pass and optimizer step, the per-batch log
  record, the building of the histograms, the validation routine and the extended log record
  (the images made for it included) raise.
\<close>

record 't batch =
  channels :: int
  true_masks :: 't
  forward :: "exn + 't"
  backward :: "exn option"
  train_log :: "exn option"
  histograms :: "exn option"
  evaluate :: "exn + 't"
  diag_log :: "exn option"

text \<open>What is fixed before the loop starts.\<close>

record 't loop_ctx =
  fw :: "'t framework"
  model :: "'t model"
  crit :: criterion
  n_train :: int
  batch_size :: int
  val_batches :: "nat list list"
  save_checkpoint :: bool
  mask_values :: "int list"

text \<open>
  A run either ends normally in a state, or raises in a state: the trace up to the raise is
  what the outside has seen.
\<close>

type_synonym 't outcome = "(exn \<times> 't train_state) + 't train_state"

fun final_state :: "'t outcome \<Rightarrow> 't train_state" where
  "final_state (Inl (e, s)) = s"
| "final_state (Inr s) = s"

fun raised :: "'t outcome \<Rightarrow> exn option" where
  "raised (Inl (e, s)) = Some e"
| "raised (Inr s) = None"

text \<open>
  The failing \<^verbatim>\<open>assert\<close>: its message is formatted first, and reads \<^verbatim>\<open>model.n_channels\<close>.
\<close>

definition assert_failure :: "'t model \<Rightarrow> exn" where
  "assert_failure m = (case attr_n_channels m of Inl e \<Rightarrow> e | Inr c \<Rightarrow> AssertionError)"

text \<open>
  The extended record of a validation round is logged inside
  \<^verbatim>\<open>try: experiment.log({...}) except: pass\<close>; the images of the record are made inside
  the \<^verbatim>\<open>try\<close> as well.
\<close>

definition log_diagnostics :: "'t \<Rightarrow> int \<Rightarrow> 't train_state \<Rightarrow> 't batch \<Rightarrow> 't train_state" where
  "log_diagnostics val_score epoch s b =
     (case diag_log b of
        Some e \<Rightarrow> s
      | None \<Rightarrow> emit (DiagLog val_score (global_step s) epoch) s)"

text \<open>
  The evaluation round: the histograms are built, the validation routine runs, the
  scheduler steps, and the extended record is logged.
\<close>

definition evaluation_round :: "'t loop_ctx \<Rightarrow> int \<Rightarrow> 't train_state \<Rightarrow> 't batch \<Rightarrow> 't outcome" where
  "evaluation_round ctx epoch s b =
     (let s1 = emit BuildHistograms s in
      case histograms b of
        Some e \<Rightarrow> Inl (e, s1)
      | None \<Rightarrow>
          (let s2 = emit (Evaluate (global_step s1) (val_batches ctx)) s1 in
           case evaluate b of
             Inl e \<Rightarrow> Inl (e, s2)
           | Inr val_score \<Rightarrow>
               Inr (log_diagnostics val_score epoch (emit (SchedulerStep val_score) s2) b)))"

text \<open>
  The end of the loop body, after the optimizer step:
  \<^verbatim>\<open>global_step += 1\<close>, the per-batch record, and the evaluation round when it is due.
\<close>

definition after_step :: "'t loop_ctx \<Rightarrow> int \<Rightarrow> 't \<Rightarrow> 't train_state \<Rightarrow> 't batch \<Rightarrow> 't outcome" where
  "after_step ctx epoch loss s b =
     (let s1 = s\<lparr>global_step := global_step s + 1\<rparr> in
      case train_log b of
        Some e \<Rightarrow> Inl (e, s1)
      | None \<Rightarrow>
          (let s2 = emit (TrainLog loss (global_step s1) epoch) s1 in
           if 200 * batch_size ctx = 0 then Inl (ZeroDivisionError, s2)
           else
             (let division_step = n_train ctx div (200 * batch_size ctx) in
              if division_step > 0
              then (if global_step s2 mod division_step = 0
                    then evaluation_round ctx epoch s2 b
                    else Inr s2)
              else Inr s2)))"

text \<open>The loop body after the \<^verbatim>\<open>assert\<close>: forward pass, loss, backward pass and step.\<close>

definition batch_body :: "'t loop_ctx \<Rightarrow> int \<Rightarrow> 't train_state \<Rightarrow> 't batch \<Rightarrow> 't outcome" where
  "batch_body ctx epoch s b =
     (let s1 = emit ForwardPass s in
      case forward b of
        Inl e \<Rightarrow> Inl (e, s1)
      | Inr masks_pred \<Rightarrow>
          (case module_n_classes (model ctx) of
             Inl e \<Rightarrow> Inl (e, s1)
           | Inr classes \<Rightarrow>
               (let loss = compute_loss (fw ctx) (crit ctx) classes masks_pred (true_masks b) in
                case backward b of
                  Some e \<Rightarrow> Inl (e, s1)
                | None \<Rightarrow> after_step ctx epoch loss (emit (OptimizerStep loss) s1) b)))"

definition train_batch :: "'t loop_ctx \<Rightarrow> int \<Rightarrow> 't train_state \<Rightarrow> 't batch \<Rightarrow> 't outcome" where
  "train_batch ctx epoch s b =
     (case module_n_channels (model ctx) of
        Inl e \<Rightarrow> Inl (e, s)
      | Inr c \<Rightarrow>
          if channels b \<noteq> c then Inl (assert_failure (model ctx), s)
          else batch_body ctx epoch s b)"

text \<open>\<^verbatim>\<open>for batch in train_loader\<close>.\<close>

fun train_batches :: "'t loop_ctx \<Rightarrow> int \<Rightarrow> 't train_state \<Rightarrow> 't batch list \<Rightarrow> 't outcome" where
  "train_batches ctx epoch s [] = Inr s"
| "train_batches ctx epoch s (b # bs) =
     (case train_batch ctx epoch s b of
        Inl x \<Rightarrow> Inl x
      | Inr s' \<Rightarrow> train_batches ctx epoch s' bs)"

text \<open>One epoch: \<^verbatim>\<open>model.train()\<close>, the batches, and the checkpoint if enabled.\<close>

definition train_epoch :: "'t loop_ctx \<Rightarrow> int \<Rightarrow> 't train_state \<Rightarrow> 't batch list \<Rightarrow> 't outcome" where
  "train_epoch ctx epoch s bs =
     (case train_batches ctx epoch (emit ModelTrain s) bs of
        Inl x \<Rightarrow> Inl x
      | Inr s' \<Rightarrow>
          if save_checkpoint ctx
          then Inr (emit (SaveCheckpoint epoch (checkpoint_of (model ctx) (mask_values ctx))) s')
          else Inr s')"

text \<open>
  \<^verbatim>\<open>for epoch in range(1, epochs + 1)\<close>; \<open>loader epoch\<close> is what the training loader
  yields in that epoch.
\<close>

fun train_epochs :: "'t loop_ctx \<Rightarrow> (int \<Rightarrow> 't batch list) \<Rightarrow> 't train_state \<Rightarrow> int list \<Rightarrow> 't outcome" where
  "train_epochs ctx loader s [] = Inr s"
| "train_epochs ctx loader s (epoch # rest) =
     (case train_epoch ctx epoch s (loader epoch) of
        Inl x \<Rightarrow> Inl x
      | Inr s' \<Rightarrow> train_epochs ctx loader s' rest)"

definition initial_state :: "'t train_state" where
  "initial_state = \<lparr>global_step = 0, trace = []\<rparr>"

section \<open>The function train_model\<close>

text \<open>
  The outside of one call of \<^verbatim>\<open>train_model\<close>: the dataset (its length and mask values),
  the rounding of floats, the generators, the order the training loader's sampler draws in
  each epoch for a subset of a given size (it comes from the process-wide generator, which
  nothing seeds), and the batch collated from given samples in a given epoch.
\<close>

record ('t, 'g) env =
  dataset_len :: nat
  float_round :: "real \<Rightarrow> real"
  dataset_mask_values :: "int list"
  generators :: "'g generator_api"
  epoch_order :: "int \<Rightarrow> nat \<Rightarrow> nat list"
  collate :: "int \<Rightarrow> nat list \<Rightarrow> 't batch"
  tensor_ops :: "'t framework"

record args =
  epochs :: int
  arg_batch_size :: int
  val_percent :: real
  arg_save_checkpoint :: bool

text \<open>What the training loader yields in an epoch, collated.\<close>

definition epoch_batches :: "('t, 'g) env \<Rightarrow> loader \<Rightarrow> int \<Rightarrow> 't batch list" where
  "epoch_batches ev train_loader epoch =
     map (collate ev epoch)
       (iterate train_loader (epoch_order ev epoch (length (ld_dataset train_loader))))"

text \<open>
  \<^verbatim>\<open>train_model\<close> up to its loop: the split, then
  \<^verbatim>\<open>train_loader = DataLoader(train_set, shuffle=True, **loader_args)\<close> and
  \<^verbatim>\<open>val_loader = DataLoader(val_set, shuffle=False, drop_last=True, **loader_args)\<close>, then
  the criterion. What the loop needs comes back: its context, with the batches a pass over
  the validation loader yields, and the training loader.
\<close>

definition prepare_training ::
  "('t, 'g) env \<Rightarrow> 't model \<Rightarrow> args \<Rightarrow> exn + ('t loop_ctx \<times> loader)" where
  "prepare_training ev m a =
     (let (n_train', n_val') = split_sizes (float_round ev) (dataset_len ev) (val_percent a) in
      case split_dataset (float_round ev) (generators ev) (dataset_len ev) (val_percent a) of
        Inl e \<Rightarrow> Inl e
      | Inr (train_set, val_set) \<Rightarrow>
          (case DataLoader train_set True False (arg_batch_size a) of
             Inl e \<Rightarrow> Inl e
           | Inr train_loader \<Rightarrow>
               (case DataLoader val_set False True (arg_batch_size a) of
                  Inl e \<Rightarrow> Inl e
                | Inr val_loader \<Rightarrow>
                    (case module_n_classes m of
                       Inl e \<Rightarrow> Inl e
                     | Inr classes \<Rightarrow>
                         Inr (\<lparr>fw = tensor_ops ev, model = m, crit = make_criterion classes,
                               n_train = n_train', batch_size = arg_batch_size a,
                               val_batches = iterate val_loader [],
                               save_checkpoint = arg_save_checkpoint a,
                               mask_values = dataset_mask_values ev\<rparr>,
                              train_loader)))))"

definition train_model :: "('t, 'g) env \<Rightarrow> 't model \<Rightarrow> args \<Rightarrow> 't outcome" where
  "train_model ev m a =
     (case prepare_training ev m a of
        Inl e \<Rightarrow> Inl (e, initial_state)
      | Inr (ctx, train_loader) \<Rightarrow>
          train_epochs ctx (epoch_batches ev train_loader) initial_state [1..epochs a])"

section \<open>The main block\<close>

text \<open>
  The command line: \<^verbatim>\<open>--epochs\<close>, \<^verbatim>\<open>--batch-size\<close>, \<^verbatim>\<open>--validation\<close> (a percentage) and
  \<^verbatim>\<open>--load\<close>. \<^verbatim>\<open>train_model\<close> is called with \<^verbatim>\<open>val_percent=args.val / 100\<close> (the
  quotient is taken exactly here) and without \<^verbatim>\<open>save_checkpoint\<close>, whose default is
  \<^verbatim>\<open>True\<close>.
\<close>

record cli =
  cli_epochs :: int
  cli_batch_size :: int
  cli_val :: real
  cli_load :: "string option"

definition train_args :: "cli \<Rightarrow> args" where
  "train_args c =
     \<lparr>epochs = cli_epochs c, arg_batch_size = cli_batch_size c,
      val_percent = cli_val c / 100, arg_save_checkpoint = True\<rparr>"

text \<open>What the main block does, beside what the calls of \<^verbatim>\<open>train_model\<close> do.\<close>

datatype 't main_event =
    CallTrainModel "'t model" args "'t event list"
  | LoggingError
  | EmptyCache
  | UseCheckpointing

text \<open>
  \<^verbatim>\<open>if args.load: ...\<close> on the model as built (an empty path is false, as no path is),
  then the wrapping in \<^verbatim>\<open>DataParallel\<close>. \<open>files\<close> is what \<^verbatim>\<open>torch.load\<close> reads at a
  path.
\<close>

definition prepare_model :: "(string \<Rightarrow> 't state_dict option) \<Rightarrow> 't model \<Rightarrow> cli \<Rightarrow> exn + 't model" where
  "prepare_model files built c =
     (case cli_load c of
        None \<Rightarrow> Inr (DataParallel built)
      | Some path \<Rightarrow>
          if path = [] then Inr (DataParallel built)
          else
            (case files path of
               None \<Rightarrow> Inl FileNotFoundError
             | Some ckpt \<Rightarrow>
                 (case load_checkpoint built ckpt of
                    Inl e \<Rightarrow> Inl e
                  | Inr loaded \<Rightarrow> Inr (DataParallel loaded))))"

text \<open>
  The \<^verbatim>\<open>try\<close> around the training run. \<open>first\<close> and \<open>second\<close> are the outside of the
  first call of \<^verbatim>\<open>train_model\<close> and of the call in the handler. The result is the
  exception the process ends with, if any, and what the block did.
\<close>

definition run_training ::
  "('t, 'g) env \<Rightarrow> ('t, 'g) env \<Rightarrow> 't model \<Rightarrow> args \<Rightarrow> exn option \<times> 't main_event list" where
  "run_training first second m a =
     (let r1 = train_model first m a;
          t1 = [CallTrainModel m a (trace (final_state r1))]
      in case raised r1 of
           None \<Rightarrow> (None, t1)
         | Some (RuntimeError msg) \<Rightarrow>
             if str_contains ''out of memory'' msg
             then
               (let t2 = t1 @ [LoggingError, EmptyCache, UseCheckpointing] in
                case use_checkpointing m of
                  Inl e \<Rightarrow> (Some e, t2)
                | Inr m' \<Rightarrow>
                    (let r2 = train_model second m' a
                     in (raised r2, t2 @ [CallTrainModel m' a (trace (final_state r2))])))
             else (None, t1)
         | Some e \<Rightarrow> (Some e, t1))"

definition main :: "('t, 'g) env \<Rightarrow> ('t, 'g) env \<Rightarrow> (string \<Rightarrow> 't state_dict option) \<Rightarrow> 't model \<Rightarrow> cli
    \<Rightarrow> exn option \<times> 't main_event list" where
  "main first second files built c =
     (case prepare_model files built c of
        Inl e \<Rightarrow> (Some e, [])
      | Inr m \<Rightarrow> run_training first second m (train_args c))"

section \<open>Reading a trace\<close>

text \<open>The global steps at which the validation routine was called, in order.\<close>

definition evaluate_steps :: "'t event list \<Rightarrow> int list" where
  "evaluate_steps tr = concat (map (\<lambda>ev. case ev of Evaluate g vb \<Rightarrow> [g] | _ \<Rightarrow> []) tr)"

text \<open>How often the scheduler stepped, and how many optimizer steps were taken.\<close>

definition scheduler_steps :: "'t event list \<Rightarrow> nat" where
  "scheduler_steps tr = length (filter (\<lambda>ev. case ev of SchedulerStep v \<Rightarrow> True | _ \<Rightarrow> False) tr)"

definition optimizer_steps :: "'t event list \<Rightarrow> nat" where
  "optimizer_steps tr = length (filter (\<lambda>ev. case ev of OptimizerStep l \<Rightarrow> True | _ \<Rightarrow> False) tr)"

text \<open>A trace without its extended log records.\<close>

definition non_diag :: "'t event list \<Rightarrow> 't event list" where
  "non_diag tr = filter (\<lambda>ev. case ev of DiagLog v g e \<Rightarrow> False | _ \<Rightarrow> True) tr"

text \<open>
  Every record and every call of the validation routine carries, as its step, the number of
  optimizer steps taken before it since the start of the trace, counted on from \<open>k\<close>.
\<close>

fun steps_consistent :: "int \<Rightarrow> 't event list \<Rightarrow> bool" where
  "steps_consistent k [] = True"
| "steps_consistent k (OptimizerStep l # tr) = steps_consistent (k + 1) tr"
| "steps_consistent k (TrainLog l g e # tr) = (g = k \<and> steps_consistent k tr)"
| "steps_consistent k (Evaluate g vb # tr) = (g = k \<and> steps_consistent k tr)"
| "steps_consistent k (DiagLog v g e # tr) = (g = k \<and> steps_consistent k tr)"
| "steps_consistent k (ModelTrain # tr) = steps_consistent k tr"
| "steps_consistent k (ForwardPass # tr) = steps_consistent k tr"
| "steps_consistent k (BuildHistograms # tr) = steps_consistent k tr"
| "steps_consistent k (SchedulerStep v # tr) = steps_consistent k tr"
| "steps_consistent k (SaveCheckpoint e c # tr) = steps_consistent k tr"

text \<open>
  Whether the evaluation round is due at global step \<open>g\<close>: \<open>division_step\<close> is positive
  and divides \<open>g\<close>.
\<close>

definition due :: "'t loop_ctx \<Rightarrow> int \<Rightarrow> bool" where
  "due ctx g = (0 < n_train ctx div (200 * batch_size ctx) \<and> g mod (n_train ctx div (200 * batch_size ctx)) = 0)"

text \<open>
  The events of the evaluation rounds in a trace, in the order they happened: the building
  of the histograms, the call of the validation routine, the step of the scheduler and the
  extended log record.
\<close>

definition round_events :: "'t event list \<Rightarrow> 't event list" where
  "round_events tr =
     filter (\<lambda>ev. case ev of
                BuildHistograms \<Rightarrow> True
              | Evaluate g vb \<Rightarrow> True
              | SchedulerStep v \<Rightarrow> True
              | DiagLog v g e \<Rightarrow> True
              | _ \<Rightarrow> False) tr"

text \<open>
  The batches of a run in the order the loop takes them, each with its epoch: those of
  the first epoch, then those of the second, and so on.
\<close>

definition schedule :: "(int \<Rightarrow> 't batch list) \<Rightarrow> int list \<Rightarrow> (int \<times> 't batch) list" where
  "schedule loader es = concat (map (\<lambda>epoch. map (Pair epoch) (loader epoch)) es)"

text \<open>
  What one whole evaluation round records at global step \<open>g\<close> for batch \<open>b\<close> of \<open>epoch\<close>:
  the histograms are built, the validation routine is called on the validation batches at
  step \<open>g\<close>, the scheduler steps on its score, and the extended record is logged with that
  score, step and epoch. The round stops where the batch makes a part of it raise, and a
  failing log call records nothing.
\<close>

definition round_of :: "'t loop_ctx \<Rightarrow> int \<Rightarrow> int \<Rightarrow> 't batch \<Rightarrow> 't event list" where
  "round_of ctx g epoch b =
     BuildHistograms #
       (case histograms b of
          Some e \<Rightarrow> []
        | None \<Rightarrow>
            Evaluate g (val_batches ctx) #
              (case evaluate b of
                 Inl e \<Rightarrow> []
               | Inr val_score \<Rightarrow>
                   SchedulerStep val_score #
                     (case diag_log b of
                        Some e \<Rightarrow> []
                      | None \<Rightarrow> [DiagLog val_score g epoch])))"

text \<open>
  The rounds of a run whose counter stands at \<open>g\<close> and which takes the given batches one
  after the other: the batch that brings the counter to a due step has a round, at that
  step, and no other batch has one.
\<close>

fun expected_rounds :: "'t loop_ctx \<Rightarrow> int \<Rightarrow> (int \<times> 't batch) list \<Rightarrow> 't event list" where
  "expected_rounds ctx g [] = []"
| "expected_rounds ctx g ((epoch, b) # rest) =
     (if due ctx (g + 1) then round_of ctx (g + 1) epoch b else [])
       @ expected_rounds ctx (g + 1) rest"

text \<open>
  The counter agrees with the trace: it is the number of optimizer steps taken, and the
  steps carried by the trace are consistent from 0.
\<close>

definition step_invariant :: "'t train_state \<Rightarrow> bool" where
  "step_invariant s =
     (global_step s = int (optimizer_steps (trace s)) \<and> steps_consistent 0 (trace s))"

text \<open>
  Two states that differ in their extended log records only, and two outcomes that raise
  the same and end in such states.
\<close>

definition same_but_diag :: "'t train_state \<Rightarrow> 't train_state \<Rightarrow> bool" where
  "same_but_diag s1 s2 =
     (global_step s1 = global_step s2 \<and> non_diag (trace s1) = non_diag (trace s2))"

definition same_outcome :: "'t outcome \<Rightarrow> 't outcome \<Rightarrow> bool" where
  "same_outcome r1 r2 =
     (raised r1 = raised r2 \<and> same_but_diag (final_state r1) (final_state r2))"

section \<open>A small run\<close>

text \<open>
  Tensors written as text, so that a loss shows how it was computed; a U-Net of three input
  channels and two classes with one parameter; and an outside with four samples, whose
  batches all behave alike: the forward pass gives \<open>fwd\<close>, and nothing else raises.
\<close>

definition text_ops :: "string framework" where
  "text_ops =
     \<lparr>cross_entropy = (\<lambda>x y. ''cross_entropy('' @ x @ '','' @ y @ '')''),
      bce_with_logits = (\<lambda>x y. ''bce_with_logits('' @ x @ '','' @ y @ '')''),
      dice_loss = (\<lambda>x y multiclass.
         ''dice_loss('' @ x @ '','' @ y @ (if multiclass then '',multiclass)'' else '',binary)'')),
      F_sigmoid = (\<lambda>x. ''sigmoid('' @ x @ '')''),
      F_softmax = (\<lambda>x. ''softmax('' @ x @ '')''),
      F_one_hot = (\<lambda>x k. ''one_hot('' @ x @ '')''),
      t_squeeze = (\<lambda>x. ''squeeze('' @ x @ '')''),
      t_float = (\<lambda>x. ''float('' @ x @ '')''),
      t_permute = (\<lambda>x. ''permute('' @ x @ '')''),
      t_add = (\<lambda>x y. x @ '' + '' @ y)\<rparr>"

definition small_unet :: "string unet" where
  "small_unet = \<lparr>n_channels = 3, n_classes = 2, checkpointing = False, parameters = [(''w'', ''w0'')]\<rparr>"

definition plain_batch :: "exn + string \<Rightarrow> string batch" where
  "plain_batch fwd =
     \<lparr>channels = 3, true_masks = ''masks'', forward = fwd, backward = None, train_log = None,
      histograms = None, evaluate = Inr ''score'', diag_log = None\<rparr>"

definition small_env :: "exn + string \<Rightarrow> (string, nat) env" where
  "small_env fwd =
     \<lparr>dataset_len = 4, float_round = (\<lambda>x. x), dataset_mask_values = [0, 1],
      generators = \<lparr>manual_seed = (\<lambda>seed. seed), randperm = (\<lambda>g n. [0..<n])\<rparr>,
      epoch_order = (\<lambda>epoch n. rev [0..<n]),
      collate = (\<lambda>epoch samples. plain_batch fwd),
      tensor_ops = text_ops\<rparr>"

definition small_cli :: "string option \<Rightarrow> cli" where
  "small_cli path = \<lparr>cli_epochs = 1, cli_batch_size = 2, cli_val = 25, cli_load = path\<rparr>"

text \<open>
  An outside with eight samples, and a call that holds three of them out for validation and
  trains for one epoch in batches of two.
\<close>

definition eight_env :: "(string, nat) env" where
  "eight_env = (small_env (Inr ''logits''))\<lparr>dataset_len := 8\<rparr>"

definition eight_args :: args where
  "eight_args = \<lparr>epochs = 1, arg_batch_size = 2, val_percent = 3 / 8, arg_save_checkpoint = False\<rparr>"

text \<open>
  A loop context in which \<open>division_step\<close> is 2: the evaluation round is due at every
  second global step.
\<close>

definition cadence_ctx :: "string loop_ctx" where
  "cadence_ctx =
     \<lparr>fw = text_ops, model = DataParallel (UNet small_unet), crit = CrossEntropyLoss,
      n_train = 800, batch_size = 2, val_batches = [], save_checkpoint = False,
      mask_values = [0, 1]\<rparr>"

section \<open>Properties of the split\<close>

lemma py_int_nonneg: "0 \<le> x \<Longrightarrow> py_int x = \<lfloor>x\<rfloor>"
  by (simp add: py_int_def)

text \<open>
  What is used of the rounding: it is monotone, and 0 and the length of the dataset are
  floats. Rounding to nearest is so for every length below \<open>2^53\<close>.
\<close>

lemma rounded_product_bounds:
  assumes "mono rnd" "rnd 0 = 0" "rnd (real n) = real n" "0 \<le> vp" "vp < 1"
  shows "0 \<le> rnd (real n * vp)" "rnd (real n * vp) \<le> real n"
proof -
  have lo: "0 \<le> real n * vp" using assms(4) by simp
  have "real n * vp \<le> real n * 1" using assms(5) by (intro mult_left_mono) simp_all
  then have hi: "real n * vp \<le> real n" by simp
  have "rnd 0 \<le> rnd (real n * vp)" using assms(1) lo by (rule monoD)
  then show "0 \<le> rnd (real n * vp)" using assms(2) by simp
  have "rnd (real n * vp) \<le> rnd (real n)" using assms(1) hi by (rule monoD)
  then show "rnd (real n * vp) \<le> real n" using assms(3) by simp
qed

lemma n_val_bounds:
  assumes "mono rnd" "rnd 0 = 0" "rnd (real n) = real n" "0 \<le> vp" "vp < 1"
  shows "0 \<le> \<lfloor>rnd (real n * vp)\<rfloor>" "\<lfloor>rnd (real n * vp)\<rfloor> \<le> int n"
proof -
  note b = rounded_product_bounds[OF assms]
  show "0 \<le> \<lfloor>rnd (real n * vp)\<rfloor>" using b(1) by simp
  have "\<lfloor>rnd (real n * vp)\<rfloor> \<le> \<lfloor>real n\<rfloor>" using b(2) by (rule floor_mono)
  then show "\<lfloor>rnd (real n * vp)\<rfloor> \<le> int n" by simp
qed

lemma py_slice_nonneg:
  "0 \<le> lo \<Longrightarrow> 0 \<le> hi \<Longrightarrow> nat hi \<le> length xs \<Longrightarrow> nat lo \<le> length xs \<Longrightarrow> py_slice xs lo hi = take (nat hi - nat lo) (drop (nat lo) xs)"
  by (simp add: py_slice_def slice_bound_def Let_def)

lemma subsets_two:
  assumes "0 \<le> k" "k \<le> int n" "length p = n"
  shows "subsets p 0 [int n - k, k] = [take (n - nat k) p, drop (n - nat k) p]"
proof -
  have e: "nat (int n - k) = n - nat k" using assms by (simp add: nat_diff_distrib)
  have 1: "py_slice p 0 (int n - k) = take (n - nat k) p"
    using assms e by (simp add: py_slice_nonneg)
  have "py_slice p (int n - k) (int n) = take (n - (n - nat k)) (drop (n - nat k) p)"
    using assms e by (simp add: py_slice_nonneg)
  then have 2: "py_slice p (int n - k) (int n) = drop (n - nat k) p"
    using assms by simp
  show ?thesis using 1 2 by (simp add: Let_def)
qed

lemma split_dataset_eq:
  assumes "split_sizes rnd n vp = (int n - k, k)" "0 \<le> k" "k \<le> int n"
    and "length (randperm api (manual_seed api 0) n) = n"
  shows "split_dataset rnd api n vp =
           Inr (take (n - nat k) (randperm api (manual_seed api 0) n),
                drop (n - nat k) (randperm api (manual_seed api 0) n))"
proof -
  have rs: "random_split api n [int n - k, k] (manual_seed api 0) =
      Inr [take (n - nat k) (randperm api (manual_seed api 0) n), drop (n - nat k) (randperm api (manual_seed api 0) n)]"
    unfolding random_split_def using subsets_two[OF assms(2,3,4)] by simp
  show ?thesis unfolding split_dataset_def assms(1) using rs by simp
qed

text \<open>
  Claim C3. For a validation fraction in \<open>[0, 1)\<close> the sizes are
  \<open>n_val = \<lfloor>len * val_percent\<rfloor>\<close>, the product being the float product, and
  \<open>n_train = len - n_val\<close>; they sum to the length of the dataset, and (the generator's
  draw being an order of \<open>0..<len\<close>) the two subsets have these sizes, share no sample and
  together hold every sample.
\<close>

theorem split_sizes_partition:
  assumes "mono rnd" "rnd 0 = 0" "rnd (real n) = real n"
    and "0 \<le> vp" "vp < 1"
    and "distinct (randperm api (manual_seed api 0) n)"
    and "set (randperm api (manual_seed api 0) n) = {0..<n}"
  shows "snd (split_sizes rnd n vp) = \<lfloor>rnd (real n * vp)\<rfloor>
       \<and> fst (split_sizes rnd n vp) = int n - snd (split_sizes rnd n vp)
       \<and> fst (split_sizes rnd n vp) + snd (split_sizes rnd n vp) = int n
       \<and> (\<exists>train_set val_set.
            split_dataset rnd api n vp = Inr (train_set, val_set)
          \<and> int (length train_set) = fst (split_sizes rnd n vp)
          \<and> int (length val_set) = snd (split_sizes rnd n vp)
          \<and> set train_set \<inter> set val_set = {}
          \<and> set train_set \<union> set val_set = {0..<n}
          \<and> distinct train_set \<and> distinct val_set)"
proof -
  define p where "p = randperm api (manual_seed api 0) n"
  define k where "k = \<lfloor>rnd (real n * vp)\<rfloor>"
  define tr where "tr = take (n - nat k) p"
  define va where "va = drop (n - nat k) p"
  have k: "0 \<le> k" "k \<le> int n"
    using n_val_bounds[OF assms(1-5)] by (simp_all add: k_def)
  have nn: "0 \<le> rnd (real n * vp)" by (rule rounded_product_bounds(1)[OF assms(1-5)])
  have sz: "split_sizes rnd n vp = (int n - k, k)"
    using nn by (simp add: split_sizes_def Let_def py_int_nonneg k_def)
  have dist: "distinct p" using assms(6) by (simp add: p_def)
  have setp: "set p = {0..<n}" using assms(7) by (simp add: p_def)
  have len: "length p = n" using distinct_card[OF dist] setp by simp
  have sd: "split_dataset rnd api n vp = Inr (tr, va)"
    using split_dataset_eq[OF sz k] len by (simp add: p_def tr_def va_def)
  have app: "tr @ va = p" by (simp add: tr_def va_def)
  have d2: "distinct (tr @ va)" using dist app by simp
  have i: "set tr \<inter> set va = {}" using d2 by simp
  have u: "set tr \<union> set va = {0..<n}" using setp app by (metis set_append)
  have l1: "int (length tr) = int n - k" using len k by (simp add: tr_def)
  have l2: "int (length va) = k" using len k by (simp add: va_def)
  have dt: "distinct tr" "distinct va" using d2 by simp_all
  have ex: "\<exists>train_set val_set.
            split_dataset rnd api n vp = Inr (train_set, val_set)
          \<and> int (length train_set) = int n - k
          \<and> int (length val_set) = k
          \<and> set train_set \<inter> set val_set = {}
          \<and> set train_set \<union> set val_set = {0..<n}
          \<and> distinct train_set \<and> distinct val_set"
    using sd l1 l2 i u dt by blast
  show ?thesis unfolding sz fst_conv snd_conv using ex by (simp add: k_def)
qed

text \<open>
  Claim C4. The split is a function of the dataset's length, the validation fraction and the
  one order drawn from the generator seeded with 0: two runs whose seeded draw is the same
  get the same training subset and the same validation subset, whatever else differs
  between their generators.
\<close>

theorem split_deterministic:
  assumes "randperm api1 (manual_seed api1 0) n = randperm api2 (manual_seed api2 0) n"
  shows "split_dataset rnd api1 n vp = split_dataset rnd api2 n vp"
proof -
  obtain a b where ab: "split_sizes rnd n vp = (a, b)" by (cases "split_sizes rnd n vp")
  have s: "a + b = int n" using ab by (auto simp: split_sizes_def Let_def)
  show ?thesis using assms s by (simp add: split_dataset_def ab random_split_def)
qed

text \<open>
  The scenario of 100 samples and a validation fraction of one tenth: 90 and 10. The
  rounding is the identity, as it is wherever the exact product is a float.
\<close>

theorem split_sizes_partition_witness:
  "split_sizes (\<lambda>x. x) 100 (1 / 10) = (90, 10)
   \<and> (\<exists>train_set val_set.
          split_dataset (\<lambda>x. x) \<lparr>manual_seed = (\<lambda>seed. seed), randperm = (\<lambda>g n. rev [0..<n])\<rparr> 100 (1 / 10)
            = Inr (train_set, val_set)
        \<and> int (length train_set) = 90 \<and> int (length val_set) = 10
        \<and> set train_set \<inter> set val_set = {}
        \<and> set train_set \<union> set val_set = {0..<100}
        \<and> distinct train_set \<and> distinct val_set)"
proof -
  let ?api = "\<lparr>manual_seed = (\<lambda>seed. seed), randperm = (\<lambda>g n. rev [0..<n])\<rparr> :: nat generator_api"
  have sz: "split_sizes (\<lambda>x. x) 100 (1 / 10) = (90, 10)"
    by (simp add: split_sizes_def py_int_def Let_def)
  have "snd (split_sizes (\<lambda>x. x) 100 (1 / 10)) = \<lfloor>real (100::nat) * (1 / 10)\<rfloor>
       \<and> fst (split_sizes (\<lambda>x. x) 100 (1 / 10)) = int 100 - snd (split_sizes (\<lambda>x. x) 100 (1 / 10))
       \<and> fst (split_sizes (\<lambda>x. x) 100 (1 / 10)) + snd (split_sizes (\<lambda>x. x) 100 (1 / 10)) = int 100
       \<and> (\<exists>train_set val_set.
            split_dataset (\<lambda>x. x) ?api 100 (1 / 10) = Inr (train_set, val_set)
          \<and> int (length train_set) = fst (split_sizes (\<lambda>x. x) 100 (1 / 10))
          \<and> int (length val_set) = snd (split_sizes (\<lambda>x. x) 100 (1 / 10))
          \<and> set train_set \<inter> set val_set = {}
          \<and> set train_set \<union> set val_set = {0..<100}
          \<and> distinct train_set \<and> distinct val_set)"
    by (rule split_sizes_partition[where rnd = "\<lambda>x. x" and n = 100 and vp = "1 / 10" and api = ?api])
       (simp_all add: mono_def)
  then show ?thesis unfolding sz fst_conv snd_conv by (simp add: sz)
qed

text \<open>Two generator implementations that agree on the draw from seed 0 only.\<close>

theorem split_deterministic_witness:
  "split_dataset (\<lambda>x. x) \<lparr>manual_seed = (\<lambda>seed. seed), randperm = (\<lambda>g n. rev [0..<n])\<rparr> 10 (1 / 4)
     = split_dataset (\<lambda>x. x) \<lparr>manual_seed = (\<lambda>seed. Suc seed),
          randperm = (\<lambda>g n. if g = Suc 0 then rev [0..<n] else [0..<n])\<rparr> 10 (1 / 4)"
  by (rule split_deterministic) simp

section \<open>Properties of the loaders\<close>

lemma batch_sampler_step_full:
  "length (acc @ [x]) = n \<Longrightarrow>
   batch_sampler n dl acc (x # xs) = (acc @ [x]) # batch_sampler n dl [] xs"
  by (simp add: Let_def)

lemma batch_sampler_step_part:
  "length (acc @ [x]) \<noteq> n \<Longrightarrow>
   batch_sampler n dl acc (x # xs) = batch_sampler n dl (acc @ [x]) xs"
  by (simp add: Let_def)

lemma batch_sampler_concat:
  "concat (batch_sampler n False acc xs) = acc @ xs"
proof (induction xs arbitrary: acc)
  case Nil
  then show ?case by simp
next
  case (Cons x xs)
  show ?case
  proof (cases "length (acc @ [x]) = n")
    case True
    show ?thesis unfolding batch_sampler_step_full[OF True] using Cons.IH[of "[]"] by simp
  next
    case False
    show ?thesis unfolding batch_sampler_step_part[OF False] using Cons.IH[of "acc @ [x]"] by simp
  qed
qed

lemma batch_sampler_drop_full:
  "length acc < n \<Longrightarrow> b \<in> set (batch_sampler n True acc xs) \<Longrightarrow> length b = n"
proof (induction xs arbitrary: acc)
  case Nil
  then show ?case by simp
next
  case (Cons x xs)
  show ?case
  proof (cases "length (acc @ [x]) = n")
    case True
    have "0 < n" using Cons.prems(1) by simp
    have "b = acc @ [x] \<or> b \<in> set (batch_sampler n True [] xs)"
      using Cons.prems(2) unfolding batch_sampler_step_full[OF True] by simp
    then show ?thesis
    proof
      assume "b = acc @ [x]" then show ?thesis using True by simp
    next
      assume "b \<in> set (batch_sampler n True [] xs)"
      then show ?thesis using Cons.IH[of "[]"] \<open>0 < n\<close> by simp
    qed
  next
    case False
    have "b \<in> set (batch_sampler n True (acc @ [x]) xs)"
      using Cons.prems(2) unfolding batch_sampler_step_part[OF False] .
    moreover have "length (acc @ [x]) < n" using False Cons.prems(1) by simp
    ultimately show ?thesis using Cons.IH by blast
  qed
qed

lemma batch_sampler_drop_length:
  "length acc < n \<Longrightarrow> length (batch_sampler n True acc xs) = (length acc + length xs) div n"
proof (induction xs arbitrary: acc)
  case Nil
  then show ?case by simp
next
  case (Cons x xs)
  show ?case
  proof (cases "length (acc @ [x]) = n")
    case True
    have n: "0 < n" using Cons.prems by simp
    have e: "length acc + length (x # xs) = n + length xs" using True by simp
    have "length (batch_sampler n True acc (x # xs)) = Suc (length (batch_sampler n True [] xs))"
      unfolding batch_sampler_step_full[OF True] by simp
    also have "\<dots> = Suc (length xs div n)" using Cons.IH[of "[]"] n by simp
    also have "\<dots> = (n + length xs) div n" using n by simp
    finally show ?thesis unfolding e .
  next
    case False
    have l: "length (acc @ [x]) < n" using False Cons.prems by simp
    have e: "length acc + length (x # xs) = length (acc @ [x]) + length xs" by simp
    show ?thesis unfolding batch_sampler_step_part[OF False] e using Cons.IH[OF l] .
  qed
qed


lemma drop_add_append: "length A = n \<Longrightarrow> drop (n + k) (A @ xs) = drop k xs"
  by simp

lemma batch_sampler_keep_eq:
  "length acc < n \<Longrightarrow>
   batch_sampler n False acc xs =
     batch_sampler n True acc xs @
       (if length (acc @ xs) mod n = 0 then []
        else [drop (length (acc @ xs) - length (acc @ xs) mod n) (acc @ xs)])"
proof (induction xs arbitrary: acc)
  case Nil
  then show ?case by simp
next
  case (Cons x xs)
  show ?case
  proof (cases "length (acc @ [x]) = n")
    case True
    have n: "0 < n" using Cons.prems by simp
    have e: "length (acc @ x # xs) = n + length xs" using True by simp
    have m: "length (acc @ x # xs) mod n = length xs mod n" unfolding e by simp
    have le: "length xs mod n \<le> length xs" by (rule mod_less_eq_dividend)
    have s: "n + length xs - length xs mod n = n + (length xs - length xs mod n)"
      using le by simp
    have a: "acc @ x # xs = (acc @ [x]) @ xs" by simp
    have d: "drop (n + (length xs - length xs mod n)) ((acc @ [x]) @ xs)
               = drop (length xs - length xs mod n) xs"
      by (rule drop_add_append[OF True])
    have ih: "batch_sampler n False [] xs =
       batch_sampler n True [] xs @
         (if length xs mod n = 0 then []
          else [drop (length xs - length xs mod n) xs])"
      using Cons.IH[of "[]"] n by simp
    have dd: "drop (length (acc @ x # xs) - length xs mod n) (acc @ x # xs)
                = drop (length xs - length xs mod n) xs"
    proof -
      have "drop (length (acc @ x # xs) - length xs mod n) (acc @ x # xs)
              = drop (n + length xs - length xs mod n) (acc @ x # xs)"
        by (simp only: e)
      also have "\<dots> = drop (n + (length xs - length xs mod n)) ((acc @ [x]) @ xs)"
        by (simp only: s a)
      also have "\<dots> = drop (length xs - length xs mod n) xs" by (rule d)
      finally show ?thesis .
    qed
    have L: "batch_sampler n False acc (x # xs) = (acc @ [x]) # batch_sampler n False [] xs"
      by (rule batch_sampler_step_full[OF True])
    have R: "batch_sampler n True acc (x # xs) = (acc @ [x]) # batch_sampler n True [] xs"
      by (rule batch_sampler_step_full[OF True])
    show ?thesis
      by (simp only: L R m dd ih append_Cons)
  next
    case False
    have l: "length (acc @ [x]) < n" using False Cons.prems by simp
    have a: "acc @ x # xs = (acc @ [x]) @ xs" by simp
    show ?thesis unfolding batch_sampler_step_part[OF False] a using Cons.IH[OF l] .
  qed
qed


lemma batch_sampler_drop_concat:
  assumes "0 < n"
  shows "concat (batch_sampler n True [] xs) = take (length xs - length xs mod n) xs"
proof -
  let ?k = "length xs - length xs mod n"
  let ?A = "concat (batch_sampler n True [] xs)"
  have le: "length xs mod n \<le> length xs" by (rule mod_less_eq_dividend)
  have keep: "batch_sampler n False [] xs =
     batch_sampler n True [] xs @
       (if length xs mod n = 0 then [] else [drop ?k xs])"
    using batch_sampler_keep_eq[of "[]" n xs] assms by simp
  have "concat (batch_sampler n False [] xs) = ?A @ drop ?k xs"
  proof (cases "length xs mod n = 0")
    case True
    then show ?thesis unfolding keep by simp
  next
    case False
    then show ?thesis unfolding keep by simp
  qed
  then have x: "xs = ?A @ drop ?k xs" using batch_sampler_concat[of n "[]" xs] by simp
  have "length xs = length ?A + length (drop ?k xs)" by (subst x) simp
  then have l: "length ?A = ?k" using le by simp
  have "?A = take (length ?A) xs" using x by (metis append_eq_conv_conj)
  then show ?thesis unfolding l .
qed

lemma train_order_set:
  assumes "set perm = {0..<length xs}"
  shows "set (train_order xs perm) = set xs"
proof -
  have "set (train_order xs perm) = (!) xs ` {0..<length xs}"
    using assms by (simp add: train_order_def)
  also have "\<dots> = set (map ((!) xs) [0..<length xs])" by simp
  also have "\<dots> = set xs" by (simp only: map_nth)
  finally show ?thesis .
qed

section \<open>Properties of the loss\<close>

text \<open>The two cases of the loss, with the criterion made from the number of classes.\<close>

lemma compute_loss_one_class:
  "compute_loss ops (make_criterion 1) 1 logits masks =
     t_add ops
       (bce_with_logits ops (t_squeeze ops logits) (t_float ops masks))
       (dice_loss ops (F_sigmoid ops (t_squeeze ops logits)) (t_float ops masks) False)"
  by (simp add: compute_loss_def make_criterion_def)

lemma compute_loss_more_classes:
  "classes > 1 \<Longrightarrow>
   compute_loss ops (make_criterion classes) classes logits masks =
     t_add ops
       (cross_entropy ops logits masks)
       (dice_loss ops (t_float ops (F_softmax ops logits))
          (t_float ops (t_permute ops (F_one_hot ops masks classes))) True)"
  by (simp add: compute_loss_def make_criterion_def)

text \<open>
  Where the loop computes it: for a batch that passes the \<^verbatim>\<open>assert\<close> and whose forward
  and backward passes do not raise, with the criterion \<^verbatim>\<open>train_model\<close> made before the
  loop.
\<close>

lemma loop_loss:
  assumes "module_n_channels (model ctx) = Inr (channels b)"
    and "module_n_classes (model ctx) = Inr classes"
    and "crit ctx = make_criterion classes"
    and "forward b = Inr logits" and "backward b = None"
  shows "train_batch ctx epoch s b =
           after_step ctx epoch
             (compute_loss (fw ctx) (make_criterion classes) classes logits (true_masks b))
             (emit (OptimizerStep
                (compute_loss (fw ctx) (make_criterion classes) classes logits (true_masks b)))
                (emit ForwardPass s)) b"
  using assms by (simp add: train_batch_def batch_body_def Let_def)

text \<open>What follows the optimizer step only adds to the trace.\<close>

lemma log_diagnostics_extends:
  "\<exists>rest. trace (log_diagnostics v epoch s b) = trace s @ rest"
  by (cases "diag_log b") (simp_all add: log_diagnostics_def emit_def)

lemma evaluation_round_extends:
  "\<exists>rest. trace (final_state (evaluation_round ctx epoch s b)) = trace s @ rest"
proof (cases "histograms b")
  case (Some e)
  then show ?thesis by (simp add: evaluation_round_def Let_def emit_def)
next
  case None
  show ?thesis
  proof (cases "evaluate b")
    case (Inl e)
    then show ?thesis using None by (simp add: evaluation_round_def Let_def emit_def)
  next
    case (Inr v)
    let ?s3 = "emit (SchedulerStep v) (emit (Evaluate (global_step (emit BuildHistograms s)) (val_batches ctx)) (emit BuildHistograms s))"
    obtain rest where r: "trace (log_diagnostics v epoch ?s3 b) = trace ?s3 @ rest"
      using log_diagnostics_extends[of v epoch ?s3 b] by (elim exE)
    have "trace ?s3 = trace s @ [BuildHistograms, Evaluate (global_step (emit BuildHistograms s)) (val_batches ctx), SchedulerStep v]"
      by (simp add: emit_def)
    then have "trace (log_diagnostics v epoch ?s3 b) = trace s @ ([BuildHistograms, Evaluate (global_step (emit BuildHistograms s)) (val_batches ctx), SchedulerStep v] @ rest)"
      using r by simp
    then show ?thesis using None Inr by (simp add: evaluation_round_def Let_def)
  qed
qed

lemma after_step_extends:
  "\<exists>rest. trace (final_state (after_step ctx epoch loss s b)) = trace s @ rest"
proof (cases "train_log b")
  case (Some e)
  then show ?thesis by (simp add: after_step_def Let_def)
next
  case None
  let ?s2 = "emit (TrainLog loss (global_step s + 1) epoch) (s\<lparr>global_step := global_step s + 1\<rparr>)"
  have t2: "trace ?s2 = trace s @ [TrainLog loss (global_step s + 1) epoch]" by (simp add: emit_def)
  obtain rest where r: "trace (final_state (evaluation_round ctx epoch ?s2 b)) = trace ?s2 @ rest"
    using evaluation_round_extends[of ctx epoch ?s2 b] by (elim exE)
  have e: "trace (final_state (evaluation_round ctx epoch ?s2 b)) = trace s @ (TrainLog loss (global_step s + 1) epoch # rest)"
    using r t2 by simp
  have "final_state (after_step ctx epoch loss s b) = ?s2
      \<or> final_state (after_step ctx epoch loss s b) = final_state (evaluation_round ctx epoch ?s2 b)"
    using None by (simp add: after_step_def Let_def emit_def)
  then show ?thesis using t2 e by auto
qed

text \<open>
  Claim C1. For every batch that passes the \<^verbatim>\<open>assert\<close> and whose forward and backward
  passes do not raise, with the criterion made from the model's number of classes, the loss
  handed to the optimizer step is the sum of two terms. For one class: binary cross-entropy
  with logits on the squeezed output, and the binary dice loss on the sigmoid of the squeezed
  output. For more than one class: cross-entropy on the logits, and the multiclass dice loss
  on the softmax of the logits against the one-hot masks.
\<close>

theorem composite_loss:
  assumes "module_n_channels (model ctx) = Inr (channels b)"
    and "module_n_classes (model ctx) = Inr classes"
    and "crit ctx = make_criterion classes"
    and "forward b = Inr logits" and "backward b = None"
  shows "(classes = 1 \<longrightarrow>
          (\<exists>rest. trace (final_state (train_batch ctx epoch s b)) =
             trace s @
             [ForwardPass,
              OptimizerStep
                (t_add (fw ctx)
                   (bce_with_logits (fw ctx) (t_squeeze (fw ctx) logits) (t_float (fw ctx) (true_masks b)))
                   (dice_loss (fw ctx) (F_sigmoid (fw ctx) (t_squeeze (fw ctx) logits))
                      (t_float (fw ctx) (true_masks b)) False))] @ rest))
       \<and> (classes > 1 \<longrightarrow>
          (\<exists>rest. trace (final_state (train_batch ctx epoch s b)) =
             trace s @
             [ForwardPass,
              OptimizerStep
                (t_add (fw ctx)
                   (cross_entropy (fw ctx) logits (true_masks b))
                   (dice_loss (fw ctx) (t_float (fw ctx) (F_softmax (fw ctx) logits))
                      (t_float (fw ctx) (t_permute (fw ctx) (F_one_hot (fw ctx) (true_masks b) classes)))
                      True))] @ rest))"
proof -
  let ?loss = "compute_loss (fw ctx) (make_criterion classes) classes logits (true_masks b)"
  let ?s0 = "emit (OptimizerStep ?loss) (emit ForwardPass s)"
  have tb: "train_batch ctx epoch s b = after_step ctx epoch ?loss ?s0 b"
    by (rule loop_loss[OF assms])
  obtain rest where r: "trace (final_state (after_step ctx epoch ?loss ?s0 b)) = trace ?s0 @ rest"
    using after_step_extends[of ctx epoch ?loss ?s0 b] by (elim exE)
  have t0: "trace ?s0 = trace s @ [ForwardPass, OptimizerStep ?loss]" by (simp add: emit_def)
  have all: "\<exists>rest. trace (final_state (train_batch ctx epoch s b)) =
               trace s @ [ForwardPass, OptimizerStep ?loss] @ rest"
    unfolding tb using r t0 by simp
  have one: "classes = 1 \<Longrightarrow> ?loss =
      t_add (fw ctx)
        (bce_with_logits (fw ctx) (t_squeeze (fw ctx) logits) (t_float (fw ctx) (true_masks b)))
        (dice_loss (fw ctx) (F_sigmoid (fw ctx) (t_squeeze (fw ctx) logits))
           (t_float (fw ctx) (true_masks b)) False)"
    using compute_loss_one_class by simp
  have more: "classes > 1 \<Longrightarrow> ?loss =
      t_add (fw ctx)
        (cross_entropy (fw ctx) logits (true_masks b))
        (dice_loss (fw ctx) (t_float (fw ctx) (F_softmax (fw ctx) logits))
           (t_float (fw ctx) (t_permute (fw ctx) (F_one_hot (fw ctx) (true_masks b) classes))) True)"
    by (rule compute_loss_more_classes)
  show ?thesis
  proof (intro conjI impI)
    assume "classes = 1"
    from one[OF this] all show "\<exists>rest. trace (final_state (train_batch ctx epoch s b)) =
             trace s @
             [ForwardPass,
              OptimizerStep
                (t_add (fw ctx)
                   (bce_with_logits (fw ctx) (t_squeeze (fw ctx) logits) (t_float (fw ctx) (true_masks b)))
                   (dice_loss (fw ctx) (F_sigmoid (fw ctx) (t_squeeze (fw ctx) logits))
                      (t_float (fw ctx) (true_masks b)) False))] @ rest"
      by simp
  next
    assume "classes > 1"
    from more[OF this] all show "\<exists>rest. trace (final_state (train_batch ctx epoch s b)) =
             trace s @
             [ForwardPass,
              OptimizerStep
                (t_add (fw ctx)
                   (cross_entropy (fw ctx) logits (true_masks b))
                   (dice_loss (fw ctx) (t_float (fw ctx) (F_softmax (fw ctx) logits))
                      (t_float (fw ctx) (t_permute (fw ctx) (F_one_hot (fw ctx) (true_masks b) classes)))
                      True))] @ rest"
      by simp
  qed
qed


text \<open>
  Both branches on tensors written as text: a batch for the model of two classes, and one
  for a model of one class.
\<close>

theorem composite_loss_witness:
  "(\<exists>rest. trace (final_state (train_batch cadence_ctx 1 initial_state (plain_batch (Inr ''logits'')))) =
       [ForwardPass,
        OptimizerStep
          ''cross_entropy(logits,masks) + dice_loss(float(softmax(logits)),float(permute(one_hot(masks))),multiclass)'']
       @ rest)
   \<and> (\<exists>rest. trace (final_state (train_batch
            (cadence_ctx\<lparr>model := DataParallel (UNet (small_unet\<lparr>n_classes := 1\<rparr>)),
                          crit := make_criterion 1\<rparr>)
            1 initial_state (plain_batch (Inr ''logits'')))) =
       [ForwardPass,
        OptimizerStep
          ''bce_with_logits(squeeze(logits),float(masks)) + dice_loss(sigmoid(squeeze(logits)),float(masks),binary)'']
       @ rest)"
proof -
  let ?b = "plain_batch (Inr ''logits'')"
  let ?one = "cadence_ctx\<lparr>model := DataParallel (UNet (small_unet\<lparr>n_classes := 1\<rparr>)),
                          crit := make_criterion 1\<rparr>"
  have b: "forward ?b = Inr ''logits''" "backward ?b = None" "true_masks ?b = ''masks''"
    by (simp_all add: plain_batch_def)
  have c2: "module_n_channels (model cadence_ctx) = Inr (channels ?b)"
    by (simp add: cadence_ctx_def module_n_channels_def small_unet_def plain_batch_def)
  have k2: "module_n_classes (model cadence_ctx) = Inr 2"
    by (simp add: cadence_ctx_def module_n_classes_def small_unet_def)
  have r2: "crit cadence_ctx = make_criterion 2"
    by (simp add: cadence_ctx_def make_criterion_def)
  have c1: "module_n_channels (model ?one) = Inr (channels ?b)"
    by (simp add: module_n_channels_def small_unet_def plain_batch_def)
  have k1: "module_n_classes (model ?one) = Inr 1"
    by (simp add: module_n_classes_def)
  have r1: "crit ?one = make_criterion 1" by simp
  have f: "fw cadence_ctx = text_ops" "fw ?one = text_ops" by (simp_all add: cadence_ctx_def)
  have t: "trace (initial_state :: string train_state) = []" by (simp add: initial_state_def)
  have two: "(2::int) > 1" by simp
  note m = composite_loss[OF c2 k2 r2 b(1) b(2), where epoch = 1 and s = initial_state,
      THEN conjunct2, rule_format, OF two]
  note o = composite_loss[OF c1 k1 r1 b(1) b(2), where epoch = 1 and s = initial_state,
      THEN conjunct1, rule_format, OF refl]
  have m': "\<exists>rest. trace (final_state (train_batch cadence_ctx 1 initial_state ?b)) =
       [ForwardPass,
        OptimizerStep
          ''cross_entropy(logits,masks) + dice_loss(float(softmax(logits)),float(permute(one_hot(masks))),multiclass)'']
       @ rest"
    using m unfolding f b t by (simp add: text_ops_def)
  have o': "\<exists>rest. trace (final_state (train_batch ?one 1 initial_state ?b)) =
       [ForwardPass,
        OptimizerStep
          ''bce_with_logits(squeeze(logits),float(masks)) + dice_loss(sigmoid(squeeze(logits)),float(masks),binary)'']
       @ rest"
    using o unfolding f b t by (simp add: text_ops_def)
  show ?thesis by (rule conjI[OF m' o'])
qed

section \<open>Properties of the checkpoint\<close>

text \<open>
  Written from a model and loaded into that same model, unwrapped, a checkpoint restores
  every parameter, when the parameter names are distinct and none is \<^verbatim>\<open>mask_values\<close>.
  Written from the wrapped model and loaded into an unwrapped model of the same parameter
  names, it is refused whenever there is a parameter at all: prefixing every name with
  \<^verbatim>\<open>module.\<close> changes a finite set of names that is not empty.
\<close>

lemma dict_set_new: "k \<notin> fst ` set d \<Longrightarrow> dict_set d k v = d @ [(k, v)]"
  by (induction d) auto

lemma dict_del_added: "k \<notin> fst ` set d \<Longrightarrow> dict_del (d @ [(k, v)]) k = Inr d"
proof -
  assume a: "k \<notin> fst ` set d"
  have "filter (\<lambda>(k', v). k' \<noteq> k) d = d"
    using a by (intro filter_True) force
  then show ?thesis by (simp add: dict_del_def)
qed

lemma state_dict_keys: "map fst (state_dict (UNet u)) = map fst (parameters u)"
  by (simp add: case_prod_unfold comp_def)

lemma state_dict_lookup:
  "map_of (state_dict (UNet u)) k = map_option Tensor (map_of (parameters u) k)"
  by (simp add: map_of_map)

lemma tensor_at_state_dict:
  "tensor_at (state_dict (UNet u)) k = map_of (parameters u) k"
  by (cases "map_of (parameters u) k") (simp_all add: state_dict_lookup del: state_dict.simps)

lemma assign_own_parameters:
  assumes "distinct (map fst (parameters u))"
  shows "assign_parameters (UNet u) (state_dict (UNet u)) = UNet u"
proof -
  have "map (\<lambda>(k, v). (k, case tensor_at (state_dict (UNet u)) k of Some w \<Rightarrow> w | None \<Rightarrow> v)) (parameters u)
          = map (\<lambda>p. p) (parameters u)"
  proof (rule map_cong[OF refl])
    fix p assume p: "p \<in> set (parameters u)"
    obtain k v where kv: "p = (k, v)" by (cases p)
    have "map_of (parameters u) k = Some v" using assms p kv by simp
    then show "(case p of (k, v) \<Rightarrow> (k, case tensor_at (state_dict (UNet u)) k of Some w \<Rightarrow> w | None \<Rightarrow> v)) = p"
      unfolding kv tensor_at_state_dict by simp
  qed
  then show ?thesis by (simp del: state_dict.simps tensor_at.simps)
qed

lemma own_state_dict_loads:
  assumes "distinct (map fst (parameters u))"
  shows "load_state_dict (UNet u) (state_dict (UNet u)) = Inr (UNet u)"
proof -
  have "list_all (\<lambda>(k, v). tensor_at (state_dict (UNet u)) k \<noteq> None) (state_dict (UNet u))"
    unfolding list_all_iff
  proof
    fix p assume "p \<in> set (state_dict (UNet u))"
    then obtain k v where kv: "p = (k, Tensor v)" "(k, v) \<in> set (parameters u)" by auto
    have "map_of (parameters u) k = Some v" using assms kv(2) by simp
    then show "case p of (k, v) \<Rightarrow> tensor_at (state_dict (UNet u)) k \<noteq> None"
      unfolding kv(1) tensor_at_state_dict by simp
  qed
  then show ?thesis
    unfolding load_state_dict_def using assign_own_parameters[OF assms] by simp
qed

lemma checkpoint_round_trip_same_model:
  assumes "distinct (map fst (parameters u))"
    and "''mask_values'' \<notin> fst ` set (parameters u)"
  shows "load_checkpoint (UNet u) (checkpoint_of (UNet u) mv) = Inr (UNet u)"
proof -
  have k: "''mask_values'' \<notin> fst ` set (state_dict (UNet u))"
    using assms(2) state_dict_keys[of u] by (metis list.set_map)
  have c: "checkpoint_of (UNet u) mv = state_dict (UNet u) @ [(''mask_values'', MaskValues mv)]"
    unfolding checkpoint_of_def by (rule dict_set_new[OF k])
  show ?thesis
    unfolding load_checkpoint_def c dict_del_added[OF k]
    using own_state_dict_loads[OF assms(1)] by simp
qed


lemma wrapped_keys:
  "map fst (state_dict (DataParallel (UNet u))) = map ((@) ''module.'') (map fst (parameters u))"
  by (simp add: case_prod_unfold comp_def)

lemma prefixed_keys_differ:
  assumes "finite K" "K \<noteq> {}"
  shows "(@) ''module.'' ` K \<noteq> (K :: string set)"
proof
  assume eq: "(@) ''module.'' ` K = K"
  define L where "L = Max (length ` K)"
  have f: "finite (length ` K)" "length ` K \<noteq> {}" using assms by simp_all
  have "L \<in> length ` K" unfolding L_def by (rule Max_in[OF f])
  then obtain k where k: "k \<in> K" "length k = L" by auto
  have "''module.'' @ k \<in> K" using k(1) eq by blast
  then have "length (''module.'' @ k) \<in> length ` K" by (rule imageI)
  then have "length (''module.'' @ k) \<le> L" unfolding L_def by (rule Max_ge[OF f(1)])
  then show False using k(2) by simp
qed

lemma wrapped_checkpoint_refused:
  assumes "parameters u \<noteq> []"
    and "map fst (parameters u') = map fst (parameters u)"
  shows "load_checkpoint (UNet u') (checkpoint_of (DataParallel (UNet u)) mv)
           = Inl (RuntimeError ''Error(s) in loading state_dict'')"
proof -
  let ?sd = "state_dict (DataParallel (UNet u))"
  let ?K = "set (map fst (parameters u))"
  have keys: "set (map fst ?sd) = (@) ''module.'' ` ?K"
    unfolding wrapped_keys by (simp only: list.set_map)
  have k: "''mask_values'' \<notin> fst ` set ?sd"
  proof
    assume a: "''mask_values'' \<in> fst ` set ?sd"
    have "fst ` set ?sd = (@) ''module.'' ` ?K" using keys by (simp only: list.set_map)
    then have "''mask_values'' \<in> (@) ''module.'' ` ?K" using a by (simp only:)
    then obtain x where "''mask_values'' = ''module.'' @ x" by (rule imageE)
    then show False by simp
  qed
  have c: "checkpoint_of (DataParallel (UNet u)) mv = ?sd @ [(''mask_values'', MaskValues mv)]"
    unfolding checkpoint_of_def by (rule dict_set_new[OF k])
  have ne: "?K \<noteq> {}" using assms(1) by simp
  have "(@) ''module.'' ` ?K \<noteq> ?K" by (rule prefixed_keys_differ[OF _ ne]) simp
  then have d: "set (map fst ?sd) \<noteq> set (map fst (state_dict (UNet u')))"
    unfolding keys state_dict_keys assms(2) .
  show ?thesis
    unfolding load_checkpoint_def c dict_del_added[OF k] load_state_dict_def
    using d by simp
qed

section \<open>The small run, the recovery handler and the checkpoint\<close>

text \<open>
  The four ways through the \<^verbatim>\<open>try\<close> of the main block: the run ends normally; it raises
  an exception that is not a \<^verbatim>\<open>RuntimeError\<close>, which is not caught; it raises a
  \<^verbatim>\<open>RuntimeError\<close> whose message does not speak of memory, which is caught and dropped; it
  raises one whose message does, and the handler runs.
\<close>

lemma run_training_normal:
  assumes "raised (train_model first m a) = None"
  shows "run_training first second m a
           = (None, [CallTrainModel m a (trace (final_state (train_model first m a)))])"
  using assms by (simp add: run_training_def Let_def)

lemma run_training_other_class:
  assumes "raised (train_model first m a) = Some e" and "\<forall>msg. e \<noteq> RuntimeError msg"
  shows "run_training first second m a
           = (Some e, [CallTrainModel m a (trace (final_state (train_model first m a)))])"
  using assms by (cases e) (simp_all add: run_training_def Let_def)

lemma run_training_other_message:
  assumes "raised (train_model first m a) = Some (RuntimeError msg)"
    and "\<not> str_contains ''out of memory'' msg"
  shows "run_training first second m a
           = (None, [CallTrainModel m a (trace (final_state (train_model first m a)))])"
  using assms by (simp add: run_training_def Let_def)

lemma run_training_out_of_memory:
  assumes "raised (train_model first m a) = Some (RuntimeError msg)"
    and "str_contains ''out of memory'' msg"
  shows "run_training first second m a
           = (case use_checkpointing m of
                Inl e \<Rightarrow>
                  (Some e,
                   [CallTrainModel m a (trace (final_state (train_model first m a))),
                    LoggingError, EmptyCache, UseCheckpointing])
              | Inr m' \<Rightarrow>
                  (raised (train_model second m' a),
                   [CallTrainModel m a (trace (final_state (train_model first m a))),
                    LoggingError, EmptyCache, UseCheckpointing,
                    CallTrainModel m' a (trace (final_state (train_model second m' a)))]))"
  using assms by (simp add: run_training_def Let_def split: sum.splits)


lemma small_split:
  "split_dataset (float_round (small_env fwd)) (generators (small_env fwd))
     (dataset_len (small_env fwd)) (1 / 4) = Inr ([0, 1, 2], [3])"
  by (simp add: small_env_def split_dataset_def split_sizes_def py_int_def
      Let_def random_split_def py_slice_def slice_bound_def upt_rec)

lemma small_sizes:
  "split_sizes (float_round (small_env fwd)) (dataset_len (small_env fwd)) (1 / 4) = (3, 1)"
  by (simp add: small_env_def split_sizes_def py_int_def Let_def)

lemma small_epoch_batches:
  "epoch_batches (small_env fwd)
     \<lparr>ld_dataset = [0, 1, 2], ld_shuffle = True, ld_drop_last = False, ld_batch_size = 2\<rparr> epoch
     = [plain_batch fwd, plain_batch fwd]"
  by (simp add: epoch_batches_def iterate_def train_order_def small_env_def Let_def upt_rec)

lemma small_classes: "module_n_classes (DataParallel (UNet small_unet)) = Inr 2"
  by (simp add: module_n_classes_def small_unet_def)

lemma small_channels: "module_n_channels (DataParallel (UNet small_unet)) = Inr 3"
  by (simp add: module_n_channels_def small_unet_def)

lemma small_prepare_training:
  "prepare_training (small_env fwd) (DataParallel (UNet small_unet)) (train_args (small_cli path)) =
     Inr (\<lparr>fw = text_ops, model = DataParallel (UNet small_unet), crit = CrossEntropyLoss,
           n_train = 3, batch_size = 2, val_batches = [], save_checkpoint = True,
           mask_values = [0, 1]\<rparr>,
          \<lparr>ld_dataset = [0, 1, 2], ld_shuffle = True, ld_drop_last = False, ld_batch_size = 2\<rparr>)"
proof -
  have a: "val_percent (train_args (small_cli path)) = 1 / 4"
       "arg_batch_size (train_args (small_cli path)) = 2"
       "arg_save_checkpoint (train_args (small_cli path)) = True"
    by (simp_all add: train_args_def small_cli_def)
  have t: "tensor_ops (small_env fwd) = text_ops" "dataset_mask_values (small_env fwd) = [0, 1]"
       "generators (small_env fwd) = generators (small_env fwd)"
    by (simp_all add: small_env_def)
  have tl: "DataLoader [0, 1, 2] True False 2
      = Inr \<lparr>ld_dataset = [0, 1, 2], ld_shuffle = True, ld_drop_last = False, ld_batch_size = 2\<rparr>"
    by (simp add: DataLoader_def)
  have vl: "DataLoader [3] False True 2
      = Inr \<lparr>ld_dataset = [3], ld_shuffle = False, ld_drop_last = True, ld_batch_size = 2\<rparr>"
    by (simp add: DataLoader_def)
  have vb: "iterate \<lparr>ld_dataset = [3], ld_shuffle = False, ld_drop_last = True, ld_batch_size = 2\<rparr> [] = []"
    by (simp add: iterate_def Let_def)
  have c: "make_criterion 2 = CrossEntropyLoss" by (simp add: make_criterion_def)
  show ?thesis
    unfolding prepare_training_def a small_sizes small_split
    by (simp only: t tl vl vb c small_classes sum.case prod.case Let_def)
qed

lemma small_train_model:
  "train_model (small_env fwd) (DataParallel (UNet small_unet)) (train_args (small_cli path)) =
     train_epochs
       \<lparr>fw = text_ops, model = DataParallel (UNet small_unet), crit = CrossEntropyLoss,
        n_train = 3, batch_size = 2, val_batches = [], save_checkpoint = True,
        mask_values = [0, 1]\<rparr>
       (\<lambda>epoch. [plain_batch fwd, plain_batch fwd]) initial_state [1]"
proof -
  have a: "epochs (train_args (small_cli path)) = 1"
    by (simp add: train_args_def small_cli_def)
  have u: "[1..(1::int)] = [1]" by (simp add: upto_rec1)
  have e: "epoch_batches (small_env fwd)
             \<lparr>ld_dataset = [0, 1, 2], ld_shuffle = True, ld_drop_last = False, ld_batch_size = 2\<rparr>
             = (\<lambda>epoch. [plain_batch fwd, plain_batch fwd])"
    by (rule ext) (rule small_epoch_batches)
  show ?thesis
    unfolding train_model_def small_prepare_training a
    by (simp only: e u sum.case prod.case)
qed

lemma small_failed_run:
  "train_model (small_env (Inl e)) (DataParallel (UNet small_unet)) (train_args (small_cli path)) =
     Inl (e, \<lparr>global_step = 0, trace = [ModelTrain, ForwardPass]\<rparr>)"
  unfolding small_train_model
  by (simp add: train_epoch_def train_batch_def batch_body_def small_channels plain_batch_def
      emit_def initial_state_def Let_def)

text \<open>
  Claim C2. The handler around the training run is \<^verbatim>\<open>except RuntimeError as e\<close> with one
  \<^verbatim>\<open>if 'out of memory' in str(e)\<close> and no \<^verbatim>\<open>else\<close>: a runtime error with any other message
  is caught as well, nothing is done about it, and the process ends normally. Here the forward
  pass of the first batch raises \<^verbatim>\<open>RuntimeError("shape mismatch")\<close>.
\<close>

theorem recovery_swallows_runtime_error:
  "main (small_env (Inl (RuntimeError ''shape mismatch''))) second files (UNet small_unet) (small_cli None)
     = (None,
        [CallTrainModel (DataParallel (UNet small_unet)) (train_args (small_cli None))
           [ModelTrain, ForwardPass]])"
  unfolding main_def
  by (simp add: prepare_model_def small_cli_def[of None, THEN arg_cong[where f=cli_load]] run_training_def small_failed_run Let_def)

text \<open>
  With a memory error the handler does run, and \<^verbatim>\<open>model.use_checkpointing()\<close> is called
  on the wrapper, which has no such method: the run ends with the \<^verbatim>\<open>AttributeError\<close>
  and \<^verbatim>\<open>train_model\<close> is not called again.
\<close>

lemma recovery_fails_on_wrapper:
  "main (small_env (Inl (RuntimeError ''CUDA out of memory.''))) second files (UNet small_unet) (small_cli None)
     = (Some AttributeError,
        [CallTrainModel (DataParallel (UNet small_unet)) (train_args (small_cli None))
           [ModelTrain, ForwardPass], LoggingError, EmptyCache, UseCheckpointing])"
  unfolding main_def
  by (simp add: prepare_model_def small_cli_def[of None, THEN arg_cong[where f=cli_load]] run_training_def small_failed_run Let_def)


lemma small_good_run:
  "train_model (small_env (Inr ''logits'')) (DataParallel (UNet small_unet)) (train_args (small_cli path)) =
     Inr \<lparr>global_step = 2,
          trace =
            [ModelTrain,
             ForwardPass,
             OptimizerStep (compute_loss text_ops CrossEntropyLoss 2 ''logits'' ''masks''),
             TrainLog (compute_loss text_ops CrossEntropyLoss 2 ''logits'' ''masks'') 1 1,
             ForwardPass,
             OptimizerStep (compute_loss text_ops CrossEntropyLoss 2 ''logits'' ''masks''),
             TrainLog (compute_loss text_ops CrossEntropyLoss 2 ''logits'' ''masks'') 2 1,
             SaveCheckpoint 1 (checkpoint_of (DataParallel (UNet small_unet)) [0, 1])]\<rparr>"
  unfolding small_train_model
  by (simp add: train_epoch_def train_batch_def batch_body_def after_step_def small_channels
      small_classes plain_batch_def emit_def initial_state_def Let_def)

text \<open>
  Claim C6. The checkpoint is written from the wrapped model, so its keys start with
  \<^verbatim>\<open>module.\<close>; it is loaded into the model before it is wrapped, whose keys do not. The
  checkpoint the small run writes after its epoch is refused by the load path of the main
  block, and no parameter is restored.
\<close>

theorem saved_checkpoint_not_loadable:
  "trace (final_state (train_model (small_env (Inr ''logits'')) (DataParallel (UNet small_unet))
       (train_args (small_cli None)))) ! 7
     = SaveCheckpoint 1 [(''module.w'', Tensor ''w0''), (''mask_values'', MaskValues [0, 1])]
   \<and> main first second
       (\<lambda>path. Some [(''module.w'', Tensor ''w0''), (''mask_values'', MaskValues [0, 1])])
       (UNet small_unet) (small_cli (Some ''checkpoint_epoch1.pth''))
     = (Some (RuntimeError ''Error(s) in loading state_dict''), [])"
proof -
  have c: "checkpoint_of (DataParallel (UNet small_unet)) [0, 1]
             = [(''module.w'', Tensor ''w0''), (''mask_values'', MaskValues [0, 1])]"
    by (simp add: checkpoint_of_def small_unet_def)
  have l: "load_checkpoint (UNet small_unet)
             [(''module.w'', Tensor ''w0''), (''mask_values'', MaskValues [0, 1])]
           = Inl (RuntimeError ''Error(s) in loading state_dict'')"
    by (simp add: load_checkpoint_def dict_del_def load_state_dict_def small_unet_def)
  have p: "cli_load (small_cli (Some ''checkpoint_epoch1.pth'')) = Some ''checkpoint_epoch1.pth''"
    by (simp add: small_cli_def)
  show ?thesis
    unfolding small_good_run main_def prepare_model_def p
    by (simp add: c l)
qed

section \<open>The loaders of train_model\<close>

text \<open>
  The loaders as \<^verbatim>\<open>train_model\<close> makes them, and the call that raises because the
  training subset is empty.
\<close>

lemma prepare_training_eq:
  assumes "split_dataset (float_round ev) (generators ev) (dataset_len ev) (val_percent a)
             = Inr (train_set, val_set)"
    and "0 < arg_batch_size a" and "train_set \<noteq> []" and "module_n_classes m = Inr classes"
  shows "prepare_training ev m a =
     Inr (\<lparr>fw = tensor_ops ev, model = m, crit = make_criterion classes,
           n_train = fst (split_sizes (float_round ev) (dataset_len ev) (val_percent a)),
           batch_size = arg_batch_size a,
           val_batches = batch_sampler (nat (arg_batch_size a)) True [] val_set,
           save_checkpoint = arg_save_checkpoint a,
           mask_values = dataset_mask_values ev\<rparr>,
          \<lparr>ld_dataset = train_set, ld_shuffle = True, ld_drop_last = False,
           ld_batch_size = nat (arg_batch_size a)\<rparr>)"
proof -
  obtain n_train' n_val' where
    z: "split_sizes (float_round ev) (dataset_len ev) (val_percent a) = (n_train', n_val')"
    by (cases "split_sizes (float_round ev) (dataset_len ev) (val_percent a)")
  show ?thesis
    unfolding prepare_training_def z assms(1)
    using assms(2,3,4) by (simp add: DataLoader_def iterate_def)
qed

lemma empty_training_set_refused:
  assumes "split_dataset (float_round ev) (generators ev) (dataset_len ev) (val_percent a)
             = Inr ([], val_set)"
  shows "train_model ev m a = Inl (ValueError, initial_state)"
proof -
  obtain n_train' n_val' where
    z: "split_sizes (float_round ev) (dataset_len ev) (val_percent a) = (n_train', n_val')"
    by (cases "split_sizes (float_round ev) (dataset_len ev) (val_percent a)")
  show ?thesis
    unfolding train_model_def prepare_training_def z assms
    by (simp add: DataLoader_def)
qed

text \<open>
  Claim C9. When the split gives a training subset that is not empty, the batch size is
  positive and the model has its class count, \<^verbatim>\<open>train_model\<close> runs its loop on the
  batches of the loaders it makes, and of these: every batch of the validation loader is
  full, there are \<open>len div batch_size\<close> of them, and together they are the validation
  subset without its last \<open>len mod batch_size\<close> samples. The batches of the training
  loader in an epoch, whose sampler draws a permutation of the positions, are full batches
  followed, when \<open>len mod batch_size\<close> is not zero, by one batch of that size; together
  they are the epoch's order, which has the length of the training subset and holds every
  sample of it.
\<close>

theorem loaders_partial_batches:
  assumes "split_dataset (float_round ev) (generators ev) (dataset_len ev) (val_percent a)
             = Inr (train_set, val_set)"
    and "0 < arg_batch_size a" and "train_set \<noteq> []" and "module_n_classes m = Inr classes"
    and "distinct (epoch_order ev epoch (length train_set))"
    and "set (epoch_order ev epoch (length train_set)) = {0..<length train_set}"
  shows "\<exists>ctx train_loader full.
           prepare_training ev m a = Inr (ctx, train_loader)
         \<and> train_model ev m a
             = train_epochs ctx
                 (\<lambda>epoch. map (collate ev epoch)
                    (iterate train_loader (epoch_order ev epoch (length train_set))))
                 initial_state [1..epochs a]
         \<and> (\<forall>b \<in> set (val_batches ctx). int (length b) = arg_batch_size a)
         \<and> length (val_batches ctx) = length val_set div nat (arg_batch_size a)
         \<and> concat (val_batches ctx)
             = take (length val_set - length val_set mod nat (arg_batch_size a)) val_set
         \<and> concat (iterate train_loader (epoch_order ev epoch (length train_set)))
             = train_order train_set (epoch_order ev epoch (length train_set))
         \<and> length (concat (iterate train_loader (epoch_order ev epoch (length train_set))))
             = length train_set
         \<and> set (concat (iterate train_loader (epoch_order ev epoch (length train_set))))
             = set train_set
         \<and> (\<forall>b \<in> set full. int (length b) = arg_batch_size a)
         \<and> iterate train_loader (epoch_order ev epoch (length train_set)) = full @
               (if length train_set mod nat (arg_batch_size a) = 0 then []
                else [drop (length train_set - length train_set mod nat (arg_batch_size a))
                        (train_order train_set (epoch_order ev epoch (length train_set)))])
         \<and> length (drop (length train_set - length train_set mod nat (arg_batch_size a))
                     (train_order train_set (epoch_order ev epoch (length train_set))))
               = length train_set mod nat (arg_batch_size a)"
proof -
  define n where "n = nat (arg_batch_size a)"
  define perm where "perm = epoch_order ev epoch (length train_set)"
  define order where "order = train_order train_set perm"
  define full where "full = batch_sampler n True [] order"
  define tl where "tl = \<lparr>ld_dataset = train_set, ld_shuffle = True, ld_drop_last = False,
           ld_batch_size = n\<rparr>"
  define ctx where "ctx = \<lparr>fw = tensor_ops ev, model = m, crit = make_criterion classes,
           n_train = fst (split_sizes (float_round ev) (dataset_len ev) (val_percent a)),
           batch_size = arg_batch_size a,
           val_batches = batch_sampler n True [] val_set,
           save_checkpoint = arg_save_checkpoint a,
           mask_values = dataset_mask_values ev\<rparr>"
  have n: "0 < n" "int n = arg_batch_size a" using assms(2) by (simp_all add: n_def)
  have p: "prepare_training ev m a = Inr (ctx, tl)"
    unfolding ctx_def tl_def n_def by (rule prepare_training_eq[OF assms(1,2,3,4)])
  have it: "\<And>q. iterate tl q = batch_sampler n False [] (train_order train_set q)"
    by (simp add: iterate_def tl_def)
  have eb: "epoch_batches ev tl
      = (\<lambda>epoch. map (collate ev epoch) (iterate tl (epoch_order ev epoch (length train_set))))"
    by (rule ext) (simp add: epoch_batches_def tl_def)
  have tm: "train_model ev m a
      = train_epochs ctx
          (\<lambda>epoch. map (collate ev epoch) (iterate tl (epoch_order ev epoch (length train_set))))
          initial_state [1..epochs a]"
    unfolding train_model_def p eb[symmetric] by simp
  have vb: "val_batches ctx = batch_sampler n True [] val_set" by (simp add: ctx_def)
  have lp: "length perm = length train_set"
    using distinct_card[OF assms(5)] assms(6) by (simp add: perm_def)
  have lo: "length order = length train_set" using lp by (simp add: order_def train_order_def)
  have v1: "\<forall>b \<in> set (val_batches ctx). int (length b) = arg_batch_size a"
    unfolding vb using batch_sampler_drop_full[of "[]" n _ val_set] n by auto
  have v2: "length (val_batches ctx) = length val_set div n"
    unfolding vb using batch_sampler_drop_length[of "[]" n val_set] n by simp
  have v3: "concat (val_batches ctx) = take (length val_set - length val_set mod n) val_set"
    unfolding vb by (rule batch_sampler_drop_concat[OF n(1)])
  have t1: "concat (iterate tl perm) = order"
    unfolding it order_def using batch_sampler_concat[of n "[]" "train_order train_set perm"] by simp
  have t2: "length (concat (iterate tl perm)) = length train_set"
    unfolding t1 by (rule lo)
  have t3: "set (concat (iterate tl perm)) = set train_set"
    unfolding t1 order_def by (rule train_order_set) (simp add: perm_def assms(6))
  have f1: "\<forall>b \<in> set full. int (length b) = arg_batch_size a"
    using batch_sampler_drop_full[of "[]" n _ order] n by (auto simp: full_def)
  have t4: "iterate tl perm = full @ (if length train_set mod n = 0 then []
                else [drop (length train_set - length train_set mod n) order])"
    unfolding it using batch_sampler_keep_eq[of "[]" n order] n(1) lo
    by (simp add: full_def order_def)
  have le: "length train_set mod n \<le> length train_set" by (rule mod_less_eq_dividend)
  have t5: "length (drop (length train_set - length train_set mod n) order) = length train_set mod n"
    using lo le by simp
  have all: "prepare_training ev m a = Inr (ctx, tl)
         \<and> train_model ev m a
             = train_epochs ctx
                 (\<lambda>epoch. map (collate ev epoch)
                    (iterate tl (epoch_order ev epoch (length train_set))))
                 initial_state [1..epochs a]
         \<and> (\<forall>b \<in> set (val_batches ctx). int (length b) = arg_batch_size a)
         \<and> length (val_batches ctx) = length val_set div n
         \<and> concat (val_batches ctx) = take (length val_set - length val_set mod n) val_set
         \<and> concat (iterate tl perm) = order
         \<and> length (concat (iterate tl perm)) = length train_set
         \<and> set (concat (iterate tl perm)) = set train_set
         \<and> (\<forall>b \<in> set full. int (length b) = arg_batch_size a)
         \<and> iterate tl perm = full @
               (if length train_set mod n = 0 then []
                else [drop (length train_set - length train_set mod n) order])
         \<and> length (drop (length train_set - length train_set mod n) order)
               = length train_set mod n"
    by (intro conjI p tm v1 v2 v3 t1 t2 t3 f1 t4 t5)
  show ?thesis
    by (rule exI[where x = ctx], rule exI[where x = tl], rule exI[where x = full])
       (rule all[unfolded order_def perm_def n_def])
qed

lemma eight_split:
  "split_dataset (float_round eight_env) (generators eight_env) (dataset_len eight_env)
     (val_percent eight_args) = Inr ([0, 1, 2, 3, 4], [5, 6, 7])"
  by (simp add: eight_env_def eight_args_def small_env_def split_dataset_def split_sizes_def
      py_int_def Let_def random_split_def py_slice_def slice_bound_def upt_rec)

lemma eight_order: "epoch_order eight_env epoch 5 = [4, 3, 2, 1, 0]"
  by (simp add: eight_env_def small_env_def upt_rec)

text \<open>
  Eight samples, three of them held out, in batches of two: the validation loader yields
  one batch and drops the third sample; the training loader yields two full batches and
  one of a single sample.
\<close>

theorem loaders_partial_batches_witness:
  "\<exists>ctx train_loader.
      prepare_training eight_env (DataParallel (UNet small_unet)) eight_args = Inr (ctx, train_loader)
    \<and> train_model eight_env (DataParallel (UNet small_unet)) eight_args
        = train_epochs ctx
            (\<lambda>epoch. map (collate eight_env epoch) (iterate train_loader [4, 3, 2, 1, 0]))
            initial_state [1..1]
    \<and> val_batches ctx = [[5, 6]]
    \<and> concat (val_batches ctx) = take 2 [5, 6, 7]
    \<and> iterate train_loader [4, 3, 2, 1, 0] = [[4, 3], [2, 1], [0]]
    \<and> set (concat (iterate train_loader [4, 3, 2, 1, 0])) = set [0, 1, 2, 3, 4]"
proof -
  let ?m = "DataParallel (UNet small_unet)"
  have h2: "0 < arg_batch_size eight_args" by (simp add: eight_args_def)
  have h3: "[0, 1, 2, 3, 4 :: nat] \<noteq> []" by simp
  have l: "length [0, 1, 2, 3, 4 :: nat] = 5" by simp
  have h5: "distinct (epoch_order eight_env 1 (length [0, 1, 2, 3, 4 :: nat]))"
    unfolding l eight_order by simp
  have h6: "set (epoch_order eight_env 1 (length [0, 1, 2, 3, 4 :: nat]))
      = {0..<length [0, 1, 2, 3, 4 :: nat]}"
    unfolding l eight_order by auto
  obtain ctx train_loader full where
    p: "prepare_training eight_env ?m eight_args = Inr (ctx, train_loader)"
    and t: "train_model eight_env ?m eight_args
        = train_epochs ctx
            (\<lambda>epoch. map (collate eight_env epoch)
               (iterate train_loader (epoch_order eight_env epoch (length [0, 1, 2, 3, 4 :: nat]))))
            initial_state [1..epochs eight_args]"
    and v: "concat (val_batches ctx)
        = take (length [5, 6, 7 :: nat] - length [5, 6, 7 :: nat] mod nat (arg_batch_size eight_args))
            [5, 6, 7]"
    and c: "set (concat (iterate train_loader (epoch_order eight_env 1 (length [0, 1, 2, 3, 4 :: nat]))))
        = set [0, 1, 2, 3, 4]"
    using loaders_partial_batches[OF eight_split h2 h3 small_classes h5 h6] by (elim exE conjE)
  have e: "prepare_training eight_env ?m eight_args =
     Inr (\<lparr>fw = tensor_ops eight_env, model = ?m, crit = make_criterion 2,
           n_train = fst (split_sizes (float_round eight_env) (dataset_len eight_env) (val_percent eight_args)),
           batch_size = arg_batch_size eight_args,
           val_batches = batch_sampler (nat (arg_batch_size eight_args)) True [] [5, 6, 7],
           save_checkpoint = arg_save_checkpoint eight_args,
           mask_values = dataset_mask_values eight_env\<rparr>,
          \<lparr>ld_dataset = [0, 1, 2, 3, 4], ld_shuffle = True, ld_drop_last = False,
           ld_batch_size = nat (arg_batch_size eight_args)\<rparr>)"
    by (rule prepare_training_eq[OF eight_split h2 h3 small_classes])
  have vb: "val_batches ctx = [[5, 6]]"
    using p unfolding e by (auto simp: eight_args_def Let_def)
  have tb: "iterate train_loader [4, 3, 2, 1, 0] = [[4, 3], [2, 1], [0]]"
    using p unfolding e by (auto simp: eight_args_def iterate_def train_order_def Let_def)
  have a: "arg_batch_size eight_args = 2" "epochs eight_args = 1" by (simp_all add: eight_args_def)
  have t': "train_model eight_env ?m eight_args
        = train_epochs ctx
            (\<lambda>epoch. map (collate eight_env epoch) (iterate train_loader [4, 3, 2, 1, 0]))
            initial_state [1..1]"
    using t unfolding l eight_order a .
  have v': "concat (val_batches ctx) = take 2 [5, 6, 7]"
    using v unfolding a by simp
  have c': "set (concat (iterate train_loader [4, 3, 2, 1, 0])) = set [0, 1, 2, 3, 4]"
    using c unfolding l eight_order .
  show ?thesis
    by (rule exI[where x = ctx], rule exI[where x = train_loader])
       (intro conjI p t' vb v' tb c')
qed

section \<open>Properties of the training loop\<close>

lemma prepare_training_context:
  assumes "prepare_training ev m a = Inr (ctx, train_loader)"
  shows "n_train ctx = fst (split_sizes (float_round ev) (dataset_len ev) (val_percent a))"
    and "batch_size ctx = arg_batch_size a"
proof -
  obtain n_train' n_val' where
    z: "split_sizes (float_round ev) (dataset_len ev) (val_percent a) = (n_train', n_val')"
    by (cases "split_sizes (float_round ev) (dataset_len ev) (val_percent a)")
  have "n_train ctx = n_train' \<and> batch_size ctx = arg_batch_size a"
    using assms unfolding prepare_training_def z
    by (auto simp: Let_def split: prod.splits sum.splits)
  then show "n_train ctx = fst (split_sizes (float_round ev) (dataset_len ev) (val_percent a))"
    and "batch_size ctx = arg_batch_size a"
    using z by simp_all
qed

lemma evaluate_steps_append: "evaluate_steps (a @ b) = evaluate_steps a @ evaluate_steps b"
  by (simp add: evaluate_steps_def)

lemma scheduler_steps_append: "scheduler_steps (a @ b) = scheduler_steps a + scheduler_steps b"
  by (simp add: scheduler_steps_def)

lemma optimizer_steps_append: "optimizer_steps (a @ b) = optimizer_steps a + optimizer_steps b"
  by (simp add: optimizer_steps_def)

lemma non_diag_append: "non_diag (a @ b) = non_diag a @ non_diag b"
  by (simp add: non_diag_def)

lemma steps_consistent_append:
  "steps_consistent k (a @ b) =
     (steps_consistent k a \<and> steps_consistent (k + int (optimizer_steps a)) b)"
proof (induction a arbitrary: k)
  case Nil
  then show ?case by (simp add: optimizer_steps_def)
next
  case (Cons ev a)
  show ?case
    by (cases ev) (simp_all add: Cons.IH optimizer_steps_def add.assoc)
qed

lemma invariant_emit:
  assumes "step_invariant s" and "steps_consistent (global_step s) [ev]"
    and "optimizer_steps [ev] = 0"
  shows "step_invariant (emit ev s)"
  using assms
  by (simp add: step_invariant_def emit_def steps_consistent_append optimizer_steps_append)

lemma invariant_log_diagnostics:
  "step_invariant s \<Longrightarrow> step_invariant (log_diagnostics v epoch s b)"
  by (cases "diag_log b")
     (simp_all add: log_diagnostics_def invariant_emit optimizer_steps_def)

lemma invariant_evaluation_round:
  assumes "step_invariant s"
  shows "step_invariant (final_state (evaluation_round ctx epoch s b))"
proof -
  have 1: "step_invariant (emit BuildHistograms s)"
    using assms by (simp add: invariant_emit optimizer_steps_def)
  have g1: "global_step (emit BuildHistograms s) = global_step s" by (simp add: emit_def)
  have 2: "step_invariant (emit (Evaluate (global_step (emit BuildHistograms s)) (val_batches ctx)) (emit BuildHistograms s))"
    using 1 by (simp add: invariant_emit optimizer_steps_def)
  show ?thesis
  proof (cases "histograms b")
    case (Some e)
    then show ?thesis using 1 by (simp add: evaluation_round_def Let_def)
  next
    case None
    show ?thesis
    proof (cases "evaluate b")
      case (Inl e)
      then show ?thesis using None 2 by (simp add: evaluation_round_def Let_def)
    next
      case (Inr v)
      have "step_invariant (emit (SchedulerStep v) (emit (Evaluate (global_step (emit BuildHistograms s)) (val_batches ctx)) (emit BuildHistograms s)))"
        using 2 by (simp add: invariant_emit optimizer_steps_def)
      then show ?thesis using None Inr
        by (simp add: evaluation_round_def Let_def invariant_log_diagnostics)
    qed
  qed
qed

lemma invariant_after_step:
  assumes "step_invariant s"
  shows "step_invariant (final_state (after_step ctx epoch loss (emit (OptimizerStep loss) s) b))"
proof -
  let ?s1 = "(emit (OptimizerStep loss) s)\<lparr>global_step := global_step (emit (OptimizerStep loss) s) + 1\<rparr>"
  have 1: "step_invariant ?s1"
    using assms
    by (simp add: step_invariant_def emit_def steps_consistent_append optimizer_steps_append optimizer_steps_def)
  have 2: "step_invariant (emit (TrainLog loss (global_step ?s1) epoch) ?s1)"
    using 1 by (intro invariant_emit) (simp_all add: optimizer_steps_def)
  show ?thesis
  proof (cases "train_log b")
    case (Some e)
    then show ?thesis using 1 by (simp add: after_step_def Let_def)
  next
    case None
    show ?thesis
      using None 2 invariant_evaluation_round[OF 2, of ctx epoch b]
      by (simp add: after_step_def Let_def)
  qed
qed

lemma invariant_batch_body:
  assumes "step_invariant s"
  shows "step_invariant (final_state (batch_body ctx epoch s b))"
proof -
  have 1: "step_invariant (emit ForwardPass s)"
    using assms by (simp add: invariant_emit optimizer_steps_def)
  show ?thesis
    using 1 invariant_after_step[OF 1, of ctx epoch _ b]
    by (simp add: batch_body_def Let_def split: sum.splits option.splits)
qed

lemma invariant_train_batch:
  "step_invariant s \<Longrightarrow> step_invariant (final_state (train_batch ctx epoch s b))"
  by (simp add: train_batch_def invariant_batch_body split: sum.splits)

lemma invariant_train_batches:
  "step_invariant s \<Longrightarrow> step_invariant (final_state (train_batches ctx epoch s bs))"
proof (induction bs arbitrary: s)
  case Nil
  then show ?case by simp
next
  case (Cons b bs)
  show ?case
  proof (cases "train_batch ctx epoch s b")
    case (Inl x)
    then show ?thesis using invariant_train_batch[OF Cons.prems, of ctx epoch b] by simp
  next
    case (Inr s')
    then have "step_invariant s'" using invariant_train_batch[OF Cons.prems, of ctx epoch b] by simp
    then show ?thesis using Inr Cons.IH by simp
  qed
qed

lemma invariant_train_epoch:
  assumes "step_invariant s"
  shows "step_invariant (final_state (train_epoch ctx epoch s bs))"
proof -
  have 1: "step_invariant (emit ModelTrain s)"
    using assms by (simp add: invariant_emit optimizer_steps_def)
  show ?thesis
  proof (cases "train_batches ctx epoch (emit ModelTrain s) bs")
    case (Inl x)
    then show ?thesis using invariant_train_batches[OF 1, of ctx epoch bs]
      by (simp add: train_epoch_def)
  next
    case (Inr s')
    then have "step_invariant s'" using invariant_train_batches[OF 1, of ctx epoch bs] by simp
    then show ?thesis using Inr
      by (simp add: train_epoch_def invariant_emit optimizer_steps_def)
  qed
qed

lemma invariant_train_epochs:
  "step_invariant s \<Longrightarrow> step_invariant (final_state (train_epochs ctx loader s es))"
proof (induction es arbitrary: s)
  case Nil
  then show ?case by simp
next
  case (Cons e es)
  show ?case
  proof (cases "train_epoch ctx e s (loader e)")
    case (Inl x)
    then show ?thesis using invariant_train_epoch[OF Cons.prems, of ctx e "loader e"] by simp
  next
    case (Inr s')
    then have "step_invariant s'" using invariant_train_epoch[OF Cons.prems, of ctx e "loader e"] by simp
    then show ?thesis using Inr Cons.IH by simp
  qed
qed

lemma invariant_initial: "step_invariant initial_state"
  by (simp add: step_invariant_def initial_state_def optimizer_steps_def)

lemma invariant_train_model: "step_invariant (final_state (train_model ev m a))"
  using invariant_initial
  by (auto simp: train_model_def invariant_train_epochs split: prod.splits sum.splits)


lemma log_diagnostics_steps:
  "global_step (log_diagnostics v epoch s b) = global_step s"
  "evaluate_steps (trace (log_diagnostics v epoch s b)) = evaluate_steps (trace s)"
  "scheduler_steps (trace (log_diagnostics v epoch s b)) = scheduler_steps (trace s)"
  by (cases "diag_log b";
      simp add: log_diagnostics_def emit_def evaluate_steps_def scheduler_steps_def)+

lemma evaluation_round_steps:
  assumes "evaluation_round ctx epoch s b = Inr s'"
  shows "global_step s' = global_step s
       \<and> evaluate_steps (trace s') = evaluate_steps (trace s) @ [global_step s]
       \<and> scheduler_steps (trace s') = scheduler_steps (trace s) + 1"
proof -
  obtain v where v: "evaluate b = Inr v" and h: "histograms b = None"
    using assms by (auto simp: evaluation_round_def Let_def split: option.splits sum.splits)
  have s': "s' = log_diagnostics v epoch
      (emit (SchedulerStep v) (emit (Evaluate (global_step s) (val_batches ctx)) (emit BuildHistograms s))) b"
    using assms v h by (simp add: evaluation_round_def Let_def emit_def)
  show ?thesis unfolding s' log_diagnostics_steps
    by (simp add: emit_def evaluate_steps_def scheduler_steps_def)
qed

lemma after_step_steps:
  assumes "after_step ctx epoch loss s b = Inr s'"
  shows "global_step s' = global_step s + 1
       \<and> evaluate_steps (trace s') = evaluate_steps (trace s) @ (if due ctx (global_step s + 1) then [global_step s + 1] else [])
       \<and> scheduler_steps (trace s') = scheduler_steps (trace s) + (if due ctx (global_step s + 1) then 1 else 0)"
proof -
  let ?s2 = "emit (TrainLog loss (global_step s + 1) epoch) (s\<lparr>global_step := global_step s + 1\<rparr>)"
  have t: "train_log b = None" and z: "200 * batch_size ctx \<noteq> 0"
    using assms by (auto simp: after_step_def Let_def split: option.splits if_splits)
  have g2: "global_step ?s2 = global_step s + 1" by (simp add: emit_def)
  have e2: "evaluate_steps (trace ?s2) = evaluate_steps (trace s)"
    by (simp add: emit_def evaluate_steps_def)
  have c2: "scheduler_steps (trace ?s2) = scheduler_steps (trace s)"
    by (simp add: emit_def scheduler_steps_def)
  show ?thesis
  proof (cases "due ctx (global_step s + 1)")
    case True
    then have "evaluation_round ctx epoch ?s2 b = Inr s'"
      using assms t z by (simp add: after_step_def Let_def due_def emit_def)
    from evaluation_round_steps[OF this] show ?thesis using True g2 e2 c2 by simp
  next
    case False
    then have "s' = ?s2"
      using assms t z by (auto simp: after_step_def Let_def due_def emit_def split: if_splits)
    then show ?thesis using False g2 e2 c2 by simp
  qed
qed

lemma train_batch_steps:
  assumes "train_batch ctx epoch s b = Inr s'"
  shows "global_step s' = global_step s + 1
       \<and> evaluate_steps (trace s') = evaluate_steps (trace s) @ (if due ctx (global_step s + 1) then [global_step s + 1] else [])
       \<and> scheduler_steps (trace s') = scheduler_steps (trace s) + (if due ctx (global_step s + 1) then 1 else 0)"
proof -
  have bb: "batch_body ctx epoch s b = Inr s'"
    using assms by (auto simp: train_batch_def split: sum.splits if_splits)
  then obtain loss where a: "after_step ctx epoch loss (emit (OptimizerStep loss) (emit ForwardPass s)) b = Inr s'"
    by (auto simp: batch_body_def Let_def split: sum.splits option.splits)
  have g: "global_step (emit (OptimizerStep loss) (emit ForwardPass s)) = global_step s"
    by (simp add: emit_def)
  have e: "evaluate_steps (trace (emit (OptimizerStep loss) (emit ForwardPass s))) = evaluate_steps (trace s)"
    by (simp add: emit_def evaluate_steps_def)
  have c: "scheduler_steps (trace (emit (OptimizerStep loss) (emit ForwardPass s))) = scheduler_steps (trace s)"
    by (simp add: emit_def scheduler_steps_def)
  show ?thesis using after_step_steps[OF a] unfolding g e c .
qed

lemma upto_join: "a \<le> b \<Longrightarrow> b \<le> c \<Longrightarrow> [a + 1..c] = [a + 1..b] @ [b + 1..(c::int)]"
proof (cases "a = b")
  case True
  then show ?thesis by simp
next
  case False
  assume "a \<le> b" "b \<le> c"
  then have "a + 1 \<le> b" using False by simp
  then show ?thesis using \<open>b \<le> c\<close> by (rule upto_split2)
qed

lemma train_batches_steps:
  "train_batches ctx epoch s bs = Inr s' \<Longrightarrow>
     global_step s' = global_step s + int (length bs)
   \<and> evaluate_steps (trace s') = evaluate_steps (trace s) @ filter (due ctx) [global_step s + 1..global_step s']
   \<and> scheduler_steps (trace s') = scheduler_steps (trace s) + length (filter (due ctx) [global_step s + 1..global_step s'])"
proof (induction bs arbitrary: s)
  case Nil
  then show ?case by simp
next
  case (Cons b bs)
  then obtain s1 where b: "train_batch ctx epoch s b = Inr s1"
    and r: "train_batches ctx epoch s1 bs = Inr s'"
    by (auto split: sum.splits)
  note st = train_batch_steps[OF b]
  note ih = Cons.IH[OF r]
  have g1: "global_step s1 = global_step s + 1" using st by simp
  have gs: "global_step s' = global_step s + int (length (b # bs))" using ih g1 by simp
  have le: "global_step s + 1 \<le> global_step s'" using gs by simp
  have u: "[global_step s + 1..global_step s'] = (global_step s + 1) # [global_step s1 + 1..global_step s']"
    using le g1 by (simp add: upto_rec1)
  show ?case using gs st ih unfolding u by simp
qed


lemma train_epoch_steps:
  assumes "train_epoch ctx epoch s bs = Inr s'"
  shows "global_step s' = global_step s + int (length bs)
   \<and> evaluate_steps (trace s') = evaluate_steps (trace s) @ filter (due ctx) [global_step s + 1..global_step s']
   \<and> scheduler_steps (trace s') = scheduler_steps (trace s) + length (filter (due ctx) [global_step s + 1..global_step s'])"
proof -
  obtain s1 where r: "train_batches ctx epoch (emit ModelTrain s) bs = Inr s1"
    and s': "s' = s1 \<or> s' = emit (SaveCheckpoint epoch (checkpoint_of (model ctx) (mask_values ctx))) s1"
    using assms by (auto simp: train_epoch_def split: sum.splits if_splits)
  have g: "global_step s' = global_step s1" using s' by (auto simp: emit_def)
  have e: "evaluate_steps (trace s') = evaluate_steps (trace s1)"
    using s' by (auto simp: emit_def evaluate_steps_def)
  have c: "scheduler_steps (trace s') = scheduler_steps (trace s1)"
    using s' by (auto simp: emit_def scheduler_steps_def)
  have g0: "global_step (emit ModelTrain s) = global_step s" by (simp add: emit_def)
  have e0: "evaluate_steps (trace (emit ModelTrain s)) = evaluate_steps (trace s)"
    by (simp add: emit_def evaluate_steps_def)
  have c0: "scheduler_steps (trace (emit ModelTrain s)) = scheduler_steps (trace s)"
    by (simp add: emit_def scheduler_steps_def)
  show ?thesis using train_batches_steps[OF r] unfolding g e c g0 e0 c0 .
qed

lemma train_epochs_steps:
  "train_epochs ctx loader s es = Inr s' \<Longrightarrow>
     global_step s' = global_step s + (\<Sum>e\<leftarrow>es. int (length (loader e)))
   \<and> evaluate_steps (trace s') = evaluate_steps (trace s) @ filter (due ctx) [global_step s + 1..global_step s']
   \<and> scheduler_steps (trace s') = scheduler_steps (trace s) + length (filter (due ctx) [global_step s + 1..global_step s'])"
proof (induction es arbitrary: s)
  case Nil
  then show ?case by simp
next
  case (Cons e es)
  then obtain s1 where b: "train_epoch ctx e s (loader e) = Inr s1"
    and r: "train_epochs ctx loader s1 es = Inr s'"
    by (auto split: sum.splits)
  note st = train_epoch_steps[OF b]
  note ih = Cons.IH[OF r]
  have l1: "global_step s \<le> global_step s1" using st by simp
  have nn: "0 \<le> (\<Sum>e\<leftarrow>es. int (length (loader e)))"
    by (rule sum_list_nonneg) auto
  have l2: "global_step s1 \<le> global_step s'" using ih nn by simp
  have u: "[global_step s + 1..global_step s'] = [global_step s + 1..global_step s1] @ [global_step s1 + 1..global_step s']"
    using l1 l2 by (rule upto_join)
  have gs: "global_step s' = global_step s + (\<Sum>e\<leftarrow>e # es. int (length (loader e)))"
    using st ih by simp
  show ?case using gs st ih unfolding u by simp
qed

lemma round_events_append: "round_events (xs @ ys) = round_events xs @ round_events ys"
  by (simp add: round_events_def)

lemma log_diagnostics_rounds:
  "round_events (trace (log_diagnostics v epoch s b))
     = round_events (trace s) @ (case diag_log b of Some e \<Rightarrow> [] | None \<Rightarrow> [DiagLog v (global_step s) epoch])"
  "global_step (log_diagnostics v epoch s b) = global_step s"
  by (cases "diag_log b"; simp add: log_diagnostics_def emit_def round_events_def)+

lemma round_events_emit:
  "round_events (trace (emit ev s)) = round_events (trace s) @ round_events [ev]"
  "global_step (emit ev s) = global_step s"
  by (simp_all add: emit_def round_events_append)

lemma round_events_single:
  "round_events [BuildHistograms] = [BuildHistograms]"
  "round_events [Evaluate g vb] = [Evaluate g vb]"
  "round_events [SchedulerStep v] = [SchedulerStep v]"
  "round_events [DiagLog v g e] = [DiagLog v g e]"
  "round_events [ModelTrain] = []"
  "round_events [ForwardPass] = []"
  "round_events [OptimizerStep l] = []"
  "round_events [TrainLog l g e] = []"
  "round_events [SaveCheckpoint e c] = []"
  by (simp_all add: round_events_def)

lemma evaluation_round_rounds:
  "round_events (trace (final_state (evaluation_round ctx epoch s b)))
     = round_events (trace s) @ round_of ctx (global_step s) epoch b"
  by (cases "histograms b"; cases "evaluate b"; cases "diag_log b")
     (simp_all add: evaluation_round_def round_of_def Let_def log_diagnostics_rounds
        round_events_emit round_events_single)

lemma after_step_rounds:
  "\<exists>rest. round_events (trace (final_state (after_step ctx epoch loss s b))) @ rest
     = round_events (trace s)
         @ (if due ctx (global_step s + 1) then round_of ctx (global_step s + 1) epoch b else [])"
proof -
  let ?s1 = "s\<lparr>global_step := global_step s + 1\<rparr>"
  let ?s2 = "emit (TrainLog loss (global_step s + 1) epoch) ?s1"
  have r1: "round_events (trace ?s1) = round_events (trace s)" by simp
  have r2: "round_events (trace ?s2) = round_events (trace s)"
    by (simp add: emit_def round_events_def)
  have g2: "global_step ?s2 = global_step s + 1" by (simp add: emit_def)
  show ?thesis
  proof (cases "train_log b")
    case (Some e)
    then have "final_state (after_step ctx epoch loss s b) = ?s1"
      by (simp add: after_step_def Let_def)
    then show ?thesis using r1 by simp
  next
    case None
    show ?thesis
    proof (cases "200 * batch_size ctx \<noteq> 0 \<and> due ctx (global_step s + 1)")
      case True
      then have "after_step ctx epoch loss s b = evaluation_round ctx epoch ?s2 b"
        using None by (simp add: after_step_def Let_def due_def emit_def)
      then show ?thesis using True evaluation_round_rounds[of ctx epoch ?s2 b] r2 g2 by simp
    next
      case False
      then have "final_state (after_step ctx epoch loss s b) = ?s2"
        using None by (auto simp: after_step_def Let_def due_def emit_def)
      then show ?thesis using r2 by simp
    qed
  qed
qed

lemma after_step_rounds_ok:
  assumes "after_step ctx epoch loss s b = Inr s'"
  shows "round_events (trace s') = round_events (trace s)
         @ (if due ctx (global_step s + 1) then round_of ctx (global_step s + 1) epoch b else [])"
proof -
  let ?s2 = "emit (TrainLog loss (global_step s + 1) epoch) (s\<lparr>global_step := global_step s + 1\<rparr>)"
  have t: "train_log b = None" and z: "200 * batch_size ctx \<noteq> 0"
    using assms by (auto simp: after_step_def Let_def split: option.splits if_splits)
  have r2: "round_events (trace ?s2) = round_events (trace s)"
    by (simp add: emit_def round_events_def)
  have g2: "global_step ?s2 = global_step s + 1" by (simp add: emit_def)
  show ?thesis
  proof (cases "due ctx (global_step s + 1)")
    case True
    then have "evaluation_round ctx epoch ?s2 b = Inr s'"
      using assms t z by (simp add: after_step_def Let_def due_def emit_def)
    then show ?thesis using True evaluation_round_rounds[of ctx epoch ?s2 b] r2 g2 by simp
  next
    case False
    then have "s' = ?s2"
      using assms t z by (auto simp: after_step_def Let_def due_def emit_def split: if_splits)
    then show ?thesis using False r2 by simp
  qed
qed

lemma batch_body_rounds:
  "\<exists>rest. round_events (trace (final_state (batch_body ctx epoch s b))) @ rest
     = round_events (trace s)
         @ (if due ctx (global_step s + 1) then round_of ctx (global_step s + 1) epoch b else [])"
proof -
  let ?s1 = "emit ForwardPass s"
  have r1: "round_events (trace ?s1) = round_events (trace s)"
    by (simp add: emit_def round_events_def)
  have stop: "final_state (batch_body ctx epoch s b) = ?s1 \<Longrightarrow> ?thesis"
    using r1 by simp
  show ?thesis
  proof (cases "forward b")
    case (Inl e)
    then show ?thesis by (intro stop) (simp add: batch_body_def Let_def)
  next
    case fwd: (Inr logits)
    show ?thesis
    proof (cases "module_n_classes (model ctx)")
      case (Inl e)
      then show ?thesis using fwd by (intro stop) (simp add: batch_body_def Let_def)
    next
      case cl: (Inr classes)
      show ?thesis
      proof (cases "backward b")
        case (Some e)
        then show ?thesis using fwd cl by (intro stop) (simp add: batch_body_def Let_def)
      next
        case None
        let ?loss = "compute_loss (fw ctx) (crit ctx) classes logits (true_masks b)"
        let ?s2 = "emit (OptimizerStep ?loss) ?s1"
        have e: "batch_body ctx epoch s b = after_step ctx epoch ?loss ?s2 b"
          using fwd cl None by (simp add: batch_body_def Let_def)
        have r2: "round_events (trace ?s2) = round_events (trace s)"
          by (simp add: emit_def round_events_def)
        have g2: "global_step ?s2 = global_step s" by (simp add: emit_def)
        show ?thesis using after_step_rounds[of ctx epoch ?loss ?s2 b] unfolding e r2 g2 .
      qed
    qed
  qed
qed

lemma train_batch_rounds:
  "\<exists>rest. round_events (trace (final_state (train_batch ctx epoch s b))) @ rest
     = round_events (trace s)
         @ (if due ctx (global_step s + 1) then round_of ctx (global_step s + 1) epoch b else [])"
proof (cases "train_batch ctx epoch s b = batch_body ctx epoch s b")
  case True
  then show ?thesis using batch_body_rounds[of ctx epoch s b] by simp
next
  case False
  then have "final_state (train_batch ctx epoch s b) = s"
    by (auto simp: train_batch_def split: sum.splits if_splits)
  then show ?thesis by simp
qed

lemma train_batch_rounds_ok:
  assumes "train_batch ctx epoch s b = Inr s'"
  shows "round_events (trace s') = round_events (trace s)
         @ (if due ctx (global_step s + 1) then round_of ctx (global_step s + 1) epoch b else [])"
proof -
  have bb: "batch_body ctx epoch s b = Inr s'"
    using assms by (auto simp: train_batch_def split: sum.splits if_splits)
  then obtain loss where a: "after_step ctx epoch loss (emit (OptimizerStep loss) (emit ForwardPass s)) b = Inr s'"
    by (auto simp: batch_body_def Let_def split: sum.splits option.splits)
  have g: "global_step (emit (OptimizerStep loss) (emit ForwardPass s)) = global_step s"
    by (simp add: emit_def)
  have r: "round_events (trace (emit (OptimizerStep loss) (emit ForwardPass s))) = round_events (trace s)"
    by (simp add: emit_def round_events_def)
  show ?thesis using after_step_rounds_ok[OF a] unfolding g r .
qed

lemma train_batches_rounds:
  "\<exists>rest. round_events (trace (final_state (train_batches ctx epoch s bs))) @ rest
     = round_events (trace s) @ expected_rounds ctx (global_step s) (map (Pair epoch) bs)"
proof (induction bs arbitrary: s)
  case Nil
  then show ?case by simp
next
  case (Cons b bs)
  let ?P = "if due ctx (global_step s + 1) then round_of ctx (global_step s + 1) epoch b else []"
  show ?case
  proof (cases "train_batch ctx epoch s b")
    case (Inl x)
    then have f: "final_state (train_batches ctx epoch s (b # bs)) = final_state (train_batch ctx epoch s b)"
      by simp
    obtain rest where "round_events (trace (final_state (train_batch ctx epoch s b))) @ rest
        = round_events (trace s) @ ?P"
      using train_batch_rounds[of ctx epoch s b] by (elim exE)
    then have "round_events (trace (final_state (train_batches ctx epoch s (b # bs))))
        @ (rest @ expected_rounds ctx (global_step s + 1) (map (Pair epoch) bs))
        = round_events (trace s) @ expected_rounds ctx (global_step s) (map (Pair epoch) (b # bs))"
      unfolding f by simp
    then show ?thesis by (rule exI)
  next
    case (Inr s1)
    then have f: "train_batches ctx epoch s (b # bs) = train_batches ctx epoch s1 bs" by simp
    have g1: "global_step s1 = global_step s + 1" using train_batch_steps[OF Inr] by simp
    have r1: "round_events (trace s1) = round_events (trace s) @ ?P"
      by (rule train_batch_rounds_ok[OF Inr])
    obtain rest where "round_events (trace (final_state (train_batches ctx epoch s1 bs))) @ rest
        = round_events (trace s1) @ expected_rounds ctx (global_step s1) (map (Pair epoch) bs)"
      using Cons.IH[of s1] by (elim exE)
    then have "round_events (trace (final_state (train_batches ctx epoch s (b # bs)))) @ rest
        = round_events (trace s) @ expected_rounds ctx (global_step s) (map (Pair epoch) (b # bs))"
      unfolding f r1 g1 by simp
    then show ?thesis by (rule exI)
  qed
qed

lemma train_batches_rounds_ok:
  "train_batches ctx epoch s bs = Inr s' \<Longrightarrow>
   round_events (trace s')
     = round_events (trace s) @ expected_rounds ctx (global_step s) (map (Pair epoch) bs)"
proof (induction bs arbitrary: s)
  case Nil
  then show ?case by simp
next
  case (Cons b bs)
  then obtain s1 where b: "train_batch ctx epoch s b = Inr s1"
    and r: "train_batches ctx epoch s1 bs = Inr s'"
    by (auto split: sum.splits)
  have g1: "global_step s1 = global_step s + 1" using train_batch_steps[OF b] by simp
  show ?case using Cons.IH[OF r] train_batch_rounds_ok[OF b] unfolding g1 by simp
qed

lemma train_epoch_rounds:
  "\<exists>rest. round_events (trace (final_state (train_epoch ctx epoch s bs))) @ rest
     = round_events (trace s) @ expected_rounds ctx (global_step s) (map (Pair epoch) bs)"
proof -
  let ?r = "train_batches ctx epoch (emit ModelTrain s) bs"
  have r0: "round_events (trace (emit ModelTrain s)) = round_events (trace s)"
    by (simp add: emit_def round_events_def)
  have g0: "global_step (emit ModelTrain s) = global_step s" by (simp add: emit_def)
  have "round_events (trace (final_state (train_epoch ctx epoch s bs)))
      = round_events (trace (final_state ?r))"
    by (cases ?r) (simp_all add: train_epoch_def emit_def round_events_def)
  then show ?thesis using train_batches_rounds[of ctx epoch "emit ModelTrain s" bs]
    unfolding r0 g0 by simp
qed

lemma train_epoch_rounds_ok:
  assumes "train_epoch ctx epoch s bs = Inr s'"
  shows "round_events (trace s')
     = round_events (trace s) @ expected_rounds ctx (global_step s) (map (Pair epoch) bs)"
proof -
  obtain s1 where r: "train_batches ctx epoch (emit ModelTrain s) bs = Inr s1"
    and s': "s' = s1 \<or> s' = emit (SaveCheckpoint epoch (checkpoint_of (model ctx) (mask_values ctx))) s1"
    using assms by (auto simp: train_epoch_def split: sum.splits if_splits)
  have e: "round_events (trace s') = round_events (trace s1)"
    using s' by (auto simp: emit_def round_events_def)
  have r0: "round_events (trace (emit ModelTrain s)) = round_events (trace s)"
    by (simp add: emit_def round_events_def)
  have g0: "global_step (emit ModelTrain s) = global_step s" by (simp add: emit_def)
  show ?thesis using train_batches_rounds_ok[OF r] unfolding e r0 g0 .
qed

lemma expected_rounds_append:
  "expected_rounds ctx g (xs @ ys)
     = expected_rounds ctx g xs @ expected_rounds ctx (g + int (length xs)) ys"
proof (induction xs arbitrary: g)
  case Nil
  then show ?case by simp
next
  case (Cons x xs)
  obtain epoch b where x: "x = (epoch, b)" by (cases x)
  have a: "g + 1 + int (length xs) = g + int (length (x # xs))" by simp
  show ?case unfolding x using Cons.IH[of "g + 1"] a by (simp add: x)
qed

lemma schedule_Cons:
  "schedule loader (e # es) = map (Pair e) (loader e) @ schedule loader es"
  by (simp add: schedule_def)

lemma train_epochs_rounds:
  "\<exists>rest. round_events (trace (final_state (train_epochs ctx loader s es))) @ rest
     = round_events (trace s) @ expected_rounds ctx (global_step s) (schedule loader es)"
proof (induction es arbitrary: s)
  case Nil
  then show ?case by (simp add: schedule_def)
next
  case (Cons e es)
  show ?case
  proof (cases "train_epoch ctx e s (loader e)")
    case (Inl x)
    then have f: "final_state (train_epochs ctx loader s (e # es)) = final_state (train_epoch ctx e s (loader e))"
      by simp
    obtain rest where "round_events (trace (final_state (train_epoch ctx e s (loader e)))) @ rest
        = round_events (trace s) @ expected_rounds ctx (global_step s) (map (Pair e) (loader e))"
      using train_epoch_rounds[of ctx e s "loader e"] by (elim exE)
    then have "round_events (trace (final_state (train_epochs ctx loader s (e # es))))
        @ (rest @ expected_rounds ctx (global_step s + int (length (map (Pair e) (loader e)))) (schedule loader es))
        = round_events (trace s) @ expected_rounds ctx (global_step s) (schedule loader (e # es))"
      unfolding f schedule_Cons expected_rounds_append by simp
    then show ?thesis by (rule exI)
  next
    case (Inr s1)
    then have f: "train_epochs ctx loader s (e # es) = train_epochs ctx loader s1 es" by simp
    have g1: "global_step s1 = global_step s + int (length (map (Pair e) (loader e)))"
      using train_epoch_steps[OF Inr] by simp
    have r1: "round_events (trace s1)
        = round_events (trace s) @ expected_rounds ctx (global_step s) (map (Pair e) (loader e))"
      by (rule train_epoch_rounds_ok[OF Inr])
    obtain rest where "round_events (trace (final_state (train_epochs ctx loader s1 es))) @ rest
        = round_events (trace s1) @ expected_rounds ctx (global_step s1) (schedule loader es)"
      using Cons.IH[of s1] by (elim exE)
    then have "round_events (trace (final_state (train_epochs ctx loader s (e # es)))) @ rest
        = round_events (trace s) @ expected_rounds ctx (global_step s) (schedule loader (e # es))"
      unfolding f r1 g1 schedule_Cons expected_rounds_append by simp
    then show ?thesis by (rule exI)
  qed
qed

lemma train_epochs_rounds_ok:
  "train_epochs ctx loader s es = Inr s' \<Longrightarrow>
   round_events (trace s')
     = round_events (trace s) @ expected_rounds ctx (global_step s) (schedule loader es)"
proof (induction es arbitrary: s)
  case Nil
  then show ?case by (simp add: schedule_def)
next
  case (Cons e es)
  then obtain s1 where b: "train_epoch ctx e s (loader e) = Inr s1"
    and r: "train_epochs ctx loader s1 es = Inr s'"
    by (auto split: sum.splits)
  have g1: "global_step s1 = global_step s + int (length (map (Pair e) (loader e)))"
    using train_epoch_steps[OF b] by simp
  show ?case using Cons.IH[OF r] train_epoch_rounds_ok[OF b]
    unfolding g1 schedule_Cons expected_rounds_append by simp
qed

lemma length_schedule: "int (length (schedule loader es)) = (\<Sum>e\<leftarrow>es. int (length (loader e)))"
  by (induction es) (simp_all add: schedule_def)

lemma expected_rounds_never:
  "\<not> 0 < n_train ctx div (200 * batch_size ctx) \<Longrightarrow> expected_rounds ctx g sched = []"
proof (induction sched arbitrary: g)
  case Nil
  then show ?case by simp
next
  case (Cons x sched)
  obtain epoch b where x: "x = (epoch, b)" by (cases x)
  show ?case unfolding x using Cons by (simp add: due_def)
qed


lemma raised_None: "raised r = None \<Longrightarrow> r = Inr (final_state r)"
  by (cases r) auto

lemma initial_rounds:
  "round_events (trace (initial_state :: 't train_state)) = []"
  "global_step (initial_state :: 't train_state) = 0"
  "evaluate_steps (trace (initial_state :: 't train_state)) = []"
  "scheduler_steps (trace (initial_state :: 't train_state)) = 0"
  by (simp_all add: initial_state_def round_events_def evaluate_steps_def scheduler_steps_def)

lemma evaluate_steps_emit:
  "evaluate_steps (trace (emit ev s)) = evaluate_steps (trace s) @ evaluate_steps [ev]"
  by (simp add: emit_def evaluate_steps_append)

lemma evaluate_steps_single:
  "evaluate_steps [BuildHistograms] = []"
  "evaluate_steps [Evaluate g vb] = [g]"
  "evaluate_steps [SchedulerStep v] = []"
  by (simp_all add: evaluate_steps_def)

lemma evaluation_round_calls:
  "global_step (final_state (evaluation_round ctx epoch s b)) = global_step s
   \<and> (evaluate_steps (trace (final_state (evaluation_round ctx epoch s b))) = evaluate_steps (trace s)
      \<or> evaluate_steps (trace (final_state (evaluation_round ctx epoch s b)))
          = evaluate_steps (trace s) @ [global_step s])"
  by (cases "histograms b"; cases "evaluate b")
     (simp_all add: evaluation_round_def Let_def log_diagnostics_steps evaluate_steps_emit
        evaluate_steps_single round_events_emit(2))

lemma after_step_calls:
  "global_step (final_state (after_step ctx epoch loss s b)) = global_step s + 1
   \<and> (evaluate_steps (trace (final_state (after_step ctx epoch loss s b))) = evaluate_steps (trace s)
      \<or> due ctx (global_step s + 1)
        \<and> evaluate_steps (trace (final_state (after_step ctx epoch loss s b)))
            = evaluate_steps (trace s) @ [global_step s + 1])"
proof -
  let ?s1 = "s\<lparr>global_step := global_step s + 1\<rparr>"
  let ?s2 = "emit (TrainLog loss (global_step s + 1) epoch) ?s1"
  have e2: "evaluate_steps (trace ?s2) = evaluate_steps (trace s)"
    by (simp add: emit_def evaluate_steps_def)
  have g2: "global_step ?s2 = global_step s + 1" by (simp add: emit_def)
  show ?thesis
  proof (cases "train_log b")
    case (Some e)
    then have "final_state (after_step ctx epoch loss s b) = ?s1"
      by (simp add: after_step_def Let_def)
    then show ?thesis by simp
  next
    case None
    show ?thesis
    proof (cases "200 * batch_size ctx \<noteq> 0 \<and> due ctx (global_step s + 1)")
      case True
      then have "after_step ctx epoch loss s b = evaluation_round ctx epoch ?s2 b"
        using None by (simp add: after_step_def Let_def due_def emit_def)
      then show ?thesis using True evaluation_round_calls[of ctx epoch ?s2 b] e2 g2 by auto
    next
      case False
      then have "final_state (after_step ctx epoch loss s b) = ?s2"
        using None by (auto simp: after_step_def Let_def due_def emit_def)
      then show ?thesis using e2 g2 by simp
    qed
  qed
qed

lemma train_batch_calls:
  "global_step (final_state (train_batch ctx epoch s b)) = global_step s
     \<and> evaluate_steps (trace (final_state (train_batch ctx epoch s b))) = evaluate_steps (trace s)
   \<or> global_step (final_state (train_batch ctx epoch s b)) = global_step s + 1
     \<and> (evaluate_steps (trace (final_state (train_batch ctx epoch s b))) = evaluate_steps (trace s)
        \<or> due ctx (global_step s + 1)
          \<and> evaluate_steps (trace (final_state (train_batch ctx epoch s b)))
              = evaluate_steps (trace s) @ [global_step s + 1])"
proof -
  let ?s1 = "emit ForwardPass s"
  have e1: "evaluate_steps (trace ?s1) = evaluate_steps (trace s)" "global_step ?s1 = global_step s"
    by (simp_all add: emit_def evaluate_steps_def)
  have stop: "final_state (train_batch ctx epoch s b) = s \<or> final_state (train_batch ctx epoch s b) = ?s1
      \<Longrightarrow> ?thesis"
    using e1 by auto
  show ?thesis
  proof (cases "\<exists>loss. train_batch ctx epoch s b = after_step ctx epoch loss (emit (OptimizerStep loss) ?s1) b")
    case True
    then obtain loss where
      a: "train_batch ctx epoch s b = after_step ctx epoch loss (emit (OptimizerStep loss) ?s1) b"
      by (elim exE)
    have e2: "evaluate_steps (trace (emit (OptimizerStep loss) ?s1)) = evaluate_steps (trace s)"
      "global_step (emit (OptimizerStep loss) ?s1) = global_step s"
      by (simp_all add: emit_def evaluate_steps_def)
    show ?thesis
      using after_step_calls[of ctx epoch loss "emit (OptimizerStep loss) ?s1" b]
      unfolding a e2 by simp
  next
    case False
    then have "final_state (train_batch ctx epoch s b) = s \<or> final_state (train_batch ctx epoch s b) = ?s1"
      by (auto simp: train_batch_def batch_body_def Let_def split: sum.splits option.splits if_splits)
    then show ?thesis by (rule stop)
  qed
qed

lemma filter_due_step:
  assumes "0 \<le> g"
  shows "filter (due ctx) [1..g + 1]
      = filter (due ctx) [1..g] @ (if due ctx (g + 1) then [g + 1] else [])"
proof -
  have "[1..g + 1] = [1..g] @ [g + 1]" using assms upto_rec2[of 1 "g + 1"] by simp
  then show ?thesis by simp
qed

lemma train_batches_calls:
  assumes "evaluate_steps (trace s) = filter (due ctx) [1..global_step s]" and "0 \<le> global_step s"
  shows "evaluate_steps (trace (final_state (train_batches ctx epoch s bs)))
           = filter (due ctx) [1..global_step (final_state (train_batches ctx epoch s bs))]
       \<or> evaluate_steps (trace (final_state (train_batches ctx epoch s bs)))
           = filter (due ctx) [1..global_step (final_state (train_batches ctx epoch s bs)) - 1]"
  using assms
proof (induction bs arbitrary: s)
  case Nil
  then show ?case by simp
next
  case (Cons b bs)
  note st = filter_due_step[OF Cons.prems(2), of ctx]
  show ?case
  proof (cases "train_batch ctx epoch s b")
    case (Inl x)
    then have f: "final_state (train_batches ctx epoch s (b # bs)) = final_state (train_batch ctx epoch s b)"
      by simp
    show ?thesis unfolding f
      using train_batch_calls[of ctx epoch s b] Cons.prems(1) st by auto
  next
    case (Inr s1)
    then have f: "train_batches ctx epoch s (b # bs) = train_batches ctx epoch s1 bs" by simp
    have g1: "global_step s1 = global_step s + 1"
      and e1: "evaluate_steps (trace s1) = evaluate_steps (trace s)
                 @ (if due ctx (global_step s + 1) then [global_step s + 1] else [])"
      using train_batch_steps[OF Inr] by simp_all
    have i1: "evaluate_steps (trace s1) = filter (due ctx) [1..global_step s1]"
      unfolding e1 g1 st Cons.prems(1) by simp
    have p1: "0 \<le> global_step s1" using g1 Cons.prems(2) by simp
    show ?thesis unfolding f by (rule Cons.IH[OF i1 p1])
  qed
qed

lemma train_epoch_calls:
  assumes "evaluate_steps (trace s) = filter (due ctx) [1..global_step s]" and "0 \<le> global_step s"
  shows "evaluate_steps (trace (final_state (train_epoch ctx epoch s bs)))
           = filter (due ctx) [1..global_step (final_state (train_epoch ctx epoch s bs))]
       \<or> evaluate_steps (trace (final_state (train_epoch ctx epoch s bs)))
           = filter (due ctx) [1..global_step (final_state (train_epoch ctx epoch s bs)) - 1]"
proof -
  let ?r = "train_batches ctx epoch (emit ModelTrain s) bs"
  have i0: "evaluate_steps (trace (emit ModelTrain s)) = filter (due ctx) [1..global_step (emit ModelTrain s)]"
    using assms(1) by (simp add: emit_def evaluate_steps_def)
  have p0: "0 \<le> global_step (emit ModelTrain s)" using assms(2) by (simp add: emit_def)
  have "evaluate_steps (trace (final_state (train_epoch ctx epoch s bs)))
      = evaluate_steps (trace (final_state ?r))
    \<and> global_step (final_state (train_epoch ctx epoch s bs)) = global_step (final_state ?r)"
    by (cases ?r) (simp_all add: train_epoch_def emit_def evaluate_steps_def)
  then show ?thesis using train_batches_calls[OF i0 p0, of epoch bs] by simp
qed

lemma train_epochs_calls:
  assumes "evaluate_steps (trace s) = filter (due ctx) [1..global_step s]" and "0 \<le> global_step s"
  shows "evaluate_steps (trace (final_state (train_epochs ctx loader s es)))
           = filter (due ctx) [1..global_step (final_state (train_epochs ctx loader s es))]
       \<or> evaluate_steps (trace (final_state (train_epochs ctx loader s es)))
           = filter (due ctx) [1..global_step (final_state (train_epochs ctx loader s es)) - 1]"
  using assms
proof (induction es arbitrary: s)
  case Nil
  then show ?case by simp
next
  case (Cons e es)
  show ?case
  proof (cases "train_epoch ctx e s (loader e)")
    case (Inl x)
    then have f: "final_state (train_epochs ctx loader s (e # es))
        = final_state (train_epoch ctx e s (loader e))"
      by simp
    show ?thesis unfolding f by (rule train_epoch_calls[OF Cons.prems])
  next
    case (Inr s1)
    then have f: "train_epochs ctx loader s (e # es) = train_epochs ctx loader s1 es" by simp
    note st = train_epoch_steps[OF Inr]
    have l: "global_step s \<le> global_step s1" using st by simp
    have u: "[1..global_step s1] = [1..global_step s] @ [global_step s + 1..global_step s1]"
      using upto_join[of 0 "global_step s" "global_step s1"] Cons.prems(2) l by simp
    have i1: "evaluate_steps (trace s1) = filter (due ctx) [1..global_step s1]"
      using st Cons.prems(1) unfolding u by simp
    have p1: "0 \<le> global_step s1" using l Cons.prems(2) by simp
    show ?thesis unfolding f by (rule Cons.IH[OF i1 p1])
  qed
qed

text \<open>
  Claim C5. With \<open>division_step = n_train div (200 * batch_size)\<close>, the events of the
  evaluation rounds in the trace of a run of the loop are those of one whole round (the
  histograms, the validation routine called on the validation batches, the scheduler
  stepped on its score, the extended record logged with that score, the step and the
  epoch) for each batch that brings the counter to a positive multiple of \<open>division_step\<close>,
  in the order of the batches, and nothing for any other batch. For a run that ends
  normally these are all of them, the validation routine was called at exactly the
  multiples of \<open>division_step\<close> among the steps from 1 to the last, and the scheduler
  stepped once for each call; a run that raises has made a beginning of them, and has
  called the validation routine at exactly the multiples of \<open>division_step\<close> among the
  steps from 1 to its last, or to the one before when it raised at the last before the
  call. Every step a round carries is the number of optimizer steps taken before it. With
  \<open>division_step = 0\<close> no event of a round happens in any run. The loop of
  \<^verbatim>\<open>train_model\<close> is such a run, with the \<open>n_train\<close> of the split and the batch size of
  the call.
\<close>

theorem validation_cadence:
  "(\<exists>rest. round_events (trace (final_state (train_epochs ctx loader initial_state es))) @ rest
        = expected_rounds ctx 0 (schedule loader es))
   \<and> steps_consistent 0 (trace (final_state (train_epochs ctx loader initial_state es)))
   \<and> (raised (train_epochs ctx loader initial_state es) = None \<longrightarrow>
        round_events (trace (final_state (train_epochs ctx loader initial_state es)))
          = expected_rounds ctx 0 (schedule loader es)
      \<and> global_step (final_state (train_epochs ctx loader initial_state es))
          = int (length (schedule loader es))
      \<and> evaluate_steps (trace (final_state (train_epochs ctx loader initial_state es)))
          = filter (\<lambda>g. 0 < n_train ctx div (200 * batch_size ctx)
                       \<and> g mod (n_train ctx div (200 * batch_size ctx)) = 0)
              [1..global_step (final_state (train_epochs ctx loader initial_state es))]
      \<and> scheduler_steps (trace (final_state (train_epochs ctx loader initial_state es)))
          = length (evaluate_steps (trace (final_state (train_epochs ctx loader initial_state es)))))
   \<and> (evaluate_steps (trace (final_state (train_epochs ctx loader initial_state es)))
          = filter (\<lambda>g. 0 < n_train ctx div (200 * batch_size ctx)
                       \<and> g mod (n_train ctx div (200 * batch_size ctx)) = 0)
              [1..global_step (final_state (train_epochs ctx loader initial_state es))]
      \<or> evaluate_steps (trace (final_state (train_epochs ctx loader initial_state es)))
          = filter (\<lambda>g. 0 < n_train ctx div (200 * batch_size ctx)
                       \<and> g mod (n_train ctx div (200 * batch_size ctx)) = 0)
              [1..global_step (final_state (train_epochs ctx loader initial_state es)) - 1])
   \<and> (n_train ctx div (200 * batch_size ctx) = 0 \<longrightarrow>
        round_events (trace (final_state (train_epochs ctx loader initial_state es))) = [])
   \<and> (\<forall>c ld. prepare_training ev m a = Inr (c, ld) \<longrightarrow>
        train_model ev m a = train_epochs c (epoch_batches ev ld) initial_state [1..epochs a]
      \<and> n_train c = fst (split_sizes (float_round ev) (dataset_len ev) (val_percent a))
      \<and> batch_size c = arg_batch_size a)"
proof -
  let ?r = "train_epochs ctx loader initial_state es"
  have d: "due ctx = (\<lambda>g. 0 < n_train ctx div (200 * batch_size ctx)
                      \<and> g mod (n_train ctx div (200 * batch_size ctx)) = 0)"
    by (rule ext) (simp add: due_def)
  have any: "\<exists>rest. round_events (trace (final_state ?r)) @ rest
        = expected_rounds ctx 0 (schedule loader es)"
    using train_epochs_rounds[of ctx loader initial_state es] unfolding initial_rounds by simp
  have c: "steps_consistent 0 (trace (final_state ?r))"
    using invariant_train_epochs[OF invariant_initial, of ctx loader es]
    by (simp add: step_invariant_def)
  have ok: "raised ?r = None \<longrightarrow>
        round_events (trace (final_state ?r)) = expected_rounds ctx 0 (schedule loader es)
      \<and> global_step (final_state ?r) = int (length (schedule loader es))
      \<and> evaluate_steps (trace (final_state ?r))
          = filter (\<lambda>g. 0 < n_train ctx div (200 * batch_size ctx)
                       \<and> g mod (n_train ctx div (200 * batch_size ctx)) = 0)
              [1..global_step (final_state ?r)]
      \<and> scheduler_steps (trace (final_state ?r)) = length (evaluate_steps (trace (final_state ?r)))"
  proof
    assume "raised ?r = None"
    then have r: "?r = Inr (final_state ?r)" by (rule raised_None)
    have 1: "round_events (trace (final_state ?r)) = expected_rounds ctx 0 (schedule loader es)"
      using train_epochs_rounds_ok[OF r] unfolding initial_rounds by simp
    from train_epochs_steps[OF r] have
      2: "global_step (final_state ?r) = int (length (schedule loader es))"
      and 3: "evaluate_steps (trace (final_state ?r)) = filter (due ctx) [1..global_step (final_state ?r)]"
      and 4: "scheduler_steps (trace (final_state ?r)) = length (filter (due ctx) [1..global_step (final_state ?r)])"
      unfolding initial_rounds length_schedule by simp_all
    show "round_events (trace (final_state ?r)) = expected_rounds ctx 0 (schedule loader es)
      \<and> global_step (final_state ?r) = int (length (schedule loader es))
      \<and> evaluate_steps (trace (final_state ?r))
          = filter (\<lambda>g. 0 < n_train ctx div (200 * batch_size ctx)
                       \<and> g mod (n_train ctx div (200 * batch_size ctx)) = 0)
              [1..global_step (final_state ?r)]
      \<and> scheduler_steps (trace (final_state ?r)) = length (evaluate_steps (trace (final_state ?r)))"
      using 1 2 3 4 unfolding d by simp
  qed
  have z: "n_train ctx div (200 * batch_size ctx) = 0 \<longrightarrow> round_events (trace (final_state ?r)) = []"
  proof
    assume "n_train ctx div (200 * batch_size ctx) = 0"
    then have "expected_rounds ctx 0 (schedule loader es) = []"
      by (intro expected_rounds_never) simp
    then show "round_events (trace (final_state ?r)) = []" using any by simp
  qed
  have calls: "evaluate_steps (trace (final_state ?r))
          = filter (\<lambda>g. 0 < n_train ctx div (200 * batch_size ctx)
                       \<and> g mod (n_train ctx div (200 * batch_size ctx)) = 0)
              [1..global_step (final_state ?r)]
      \<or> evaluate_steps (trace (final_state ?r))
          = filter (\<lambda>g. 0 < n_train ctx div (200 * batch_size ctx)
                       \<and> g mod (n_train ctx div (200 * batch_size ctx)) = 0)
              [1..global_step (final_state ?r) - 1]"
    using train_epochs_calls[of initial_state ctx loader es] unfolding initial_rounds d by simp
  have tm: "\<forall>c ld. prepare_training ev m a = Inr (c, ld) \<longrightarrow>
        train_model ev m a = train_epochs c (epoch_batches ev ld) initial_state [1..epochs a]
      \<and> n_train c = fst (split_sizes (float_round ev) (dataset_len ev) (val_percent a))
      \<and> batch_size c = arg_batch_size a"
  proof (intro allI impI)
    fix c ld
    assume p: "prepare_training ev m a = Inr (c, ld)"
    show "train_model ev m a = train_epochs c (epoch_batches ev ld) initial_state [1..epochs a]
      \<and> n_train c = fst (split_sizes (float_round ev) (dataset_len ev) (val_percent a))
      \<and> batch_size c = arg_batch_size a"
      using prepare_training_context[OF p] by (simp add: train_model_def p)
  qed
  show ?thesis by (intro conjI any c ok calls z tm)
qed


lemma cadence_batch:
  "train_batch cadence_ctx epoch s (plain_batch (Inr ''logits'')) =
     (let loss = compute_loss text_ops CrossEntropyLoss 2 ''logits'' ''masks'';
          g = global_step s + 1;
          tr = trace s @ [ForwardPass, OptimizerStep loss, TrainLog loss g epoch]
      in Inr \<lparr>global_step = g,
              trace = (if g mod 2 = 0
                       then tr @ [BuildHistograms, Evaluate g [], SchedulerStep ''score'',
                                  DiagLog ''score'' g epoch]
                       else tr)\<rparr>)"
proof -
  have c: "module_n_classes (DataParallel (UNet small_unet)) = Inr 2"
    by (simp add: module_n_classes_def small_unet_def)
  have h: "module_n_channels (DataParallel (UNet small_unet)) = Inr 3"
    by (simp add: module_n_channels_def small_unet_def)
  show ?thesis
    by (simp add: train_batch_def batch_body_def after_step_def evaluation_round_def
        log_diagnostics_def emit_def cadence_ctx_def plain_batch_def c h Let_def)
qed

lemma cadence_run:
  "evaluate_steps (trace (final_state (train_epochs cadence_ctx
      (\<lambda>epoch. [plain_batch (Inr ''logits''), plain_batch (Inr ''logits''), plain_batch (Inr ''logits'')])
      initial_state [1, 2]))) = [2, 4, 6]
   \<and> raised (train_epochs cadence_ctx
      (\<lambda>epoch. [plain_batch (Inr ''logits''), plain_batch (Inr ''logits''), plain_batch (Inr ''logits'')])
      initial_state [1, 2]) = None
   \<and> global_step (final_state (train_epochs cadence_ctx
      (\<lambda>epoch. [plain_batch (Inr ''logits''), plain_batch (Inr ''logits''), plain_batch (Inr ''logits'')])
      initial_state [1, 2])) = 6"
  by (simp add: train_epoch_def cadence_batch Let_def initial_state_def emit_def evaluate_steps_def
       cadence_ctx_def[THEN arg_cong[where f = save_checkpoint]])


lemma cadence_rounds:
  "expected_rounds cadence_ctx 0
     (schedule (\<lambda>epoch. [plain_batch (Inr ''logits''), plain_batch (Inr ''logits''), plain_batch (Inr ''logits'')]) [1, 2])
   = [BuildHistograms, Evaluate 2 [], SchedulerStep ''score'', DiagLog ''score'' 2 1,
      BuildHistograms, Evaluate 4 [], SchedulerStep ''score'', DiagLog ''score'' 4 2,
      BuildHistograms, Evaluate 6 [], SchedulerStep ''score'', DiagLog ''score'' 6 2]"
  by (simp add: schedule_def due_def round_of_def cadence_ctx_def plain_batch_def)

text \<open>
  Two epochs of three batches with \<open>division_step = 2\<close>: whole rounds at the global
  steps 2, 4 and 6, the second of them at the first batch of the second epoch. And the small
  run, where \<open>division_step = 3 div 400 = 0\<close>: no round in its two steps.
\<close>

theorem validation_cadence_witness:
  "raised (train_epochs cadence_ctx
      (\<lambda>epoch. [plain_batch (Inr ''logits''), plain_batch (Inr ''logits''), plain_batch (Inr ''logits'')])
      initial_state [1, 2]) = None
   \<and> n_train cadence_ctx div (200 * batch_size cadence_ctx) = 2
   \<and> round_events (trace (final_state (train_epochs cadence_ctx
      (\<lambda>epoch. [plain_batch (Inr ''logits''), plain_batch (Inr ''logits''), plain_batch (Inr ''logits'')])
      initial_state [1, 2])))
     = [BuildHistograms, Evaluate 2 [], SchedulerStep ''score'', DiagLog ''score'' 2 1,
        BuildHistograms, Evaluate 4 [], SchedulerStep ''score'', DiagLog ''score'' 4 2,
        BuildHistograms, Evaluate 6 [], SchedulerStep ''score'', DiagLog ''score'' 6 2]
   \<and> global_step (final_state (train_epochs cadence_ctx
      (\<lambda>epoch. [plain_batch (Inr ''logits''), plain_batch (Inr ''logits''), plain_batch (Inr ''logits'')])
      initial_state [1, 2])) = 6
   \<and> (\<exists>c ld. prepare_training (small_env (Inr ''logits'')) (DataParallel (UNet small_unet))
                 (train_args (small_cli None)) = Inr (c, ld)
         \<and> n_train c = 3 \<and> batch_size c = 2 \<and> n_train c div (200 * batch_size c) = 0)
   \<and> raised (train_model (small_env (Inr ''logits'')) (DataParallel (UNet small_unet))
              (train_args (small_cli None))) = None
   \<and> global_step (final_state (train_model (small_env (Inr ''logits'')) (DataParallel (UNet small_unet))
              (train_args (small_cli None)))) = 2
   \<and> round_events (trace (final_state (train_model (small_env (Inr ''logits''))
              (DataParallel (UNet small_unet)) (train_args (small_cli None))))) = []"
proof -
  let ?l = "\<lambda>epoch :: int. [plain_batch (Inr ''logits''), plain_batch (Inr ''logits''), plain_batch (Inr ''logits'')]"
  let ?r = "train_epochs cadence_ctx ?l initial_state [1, 2]"
  let ?e = "small_env (Inr ''logits'')"
  let ?m = "DataParallel (UNet small_unet)"
  let ?a = "train_args (small_cli None)"
  let ?t = "train_model ?e ?m ?a"
  have n: "raised ?r = None" and g: "global_step (final_state ?r) = 6"
    using cadence_run by simp_all
  have d: "n_train cadence_ctx div (200 * batch_size cadence_ctx) = 2"
    by (simp add: cadence_ctx_def)
  note th1 = validation_cadence[where ctx = cadence_ctx and loader = ?l and es = "[1, 2]"
      and ev = ?e and m = ?m and a = ?a]
  have ok: "raised ?r = None \<longrightarrow>
        round_events (trace (final_state ?r)) = expected_rounds cadence_ctx 0 (schedule ?l [1, 2])
      \<and> global_step (final_state ?r) = int (length (schedule ?l [1, 2]))
      \<and> evaluate_steps (trace (final_state ?r))
          = filter (\<lambda>g. 0 < n_train cadence_ctx div (200 * batch_size cadence_ctx)
                       \<and> g mod (n_train cadence_ctx div (200 * batch_size cadence_ctx)) = 0)
              [1..global_step (final_state ?r)]
      \<and> scheduler_steps (trace (final_state ?r)) = length (evaluate_steps (trace (final_state ?r)))"
    using th1 by (elim conjE) assumption
  have "round_events (trace (final_state ?r)) = expected_rounds cadence_ctx 0 (schedule ?l [1, 2])"
    using ok n by blast
  then have first: "round_events (trace (final_state ?r))
     = [BuildHistograms, Evaluate 2 [], SchedulerStep ''score'', DiagLog ''score'' 2 1,
        BuildHistograms, Evaluate 4 [], SchedulerStep ''score'', DiagLog ''score'' 4 2,
        BuildHistograms, Evaluate 6 [], SchedulerStep ''score'', DiagLog ''score'' 6 2]"
    unfolding cadence_rounds .
  obtain c ld where p: "prepare_training ?e ?m ?a = Inr (c, ld)"
    using small_prepare_training[of "Inr ''logits''" None] by simp
  have tm: "\<forall>c ld. prepare_training ?e ?m ?a = Inr (c, ld) \<longrightarrow>
        ?t = train_epochs c (epoch_batches ?e ld) initial_state [1..epochs ?a]
      \<and> n_train c = fst (split_sizes (float_round ?e) (dataset_len ?e) (val_percent ?a))
      \<and> batch_size c = arg_batch_size ?a"
    using th1 by (elim conjE) assumption
  have te: "?t = train_epochs c (epoch_batches ?e ld) initial_state [1..epochs ?a]"
    and nc: "n_train c = fst (split_sizes (float_round ?e) (dataset_len ?e) (val_percent ?a))"
    and bc: "batch_size c = arg_batch_size ?a"
    using tm p by blast+
  have a: "val_percent ?a = 1 / 4" "arg_batch_size ?a = 2"
    by (simp_all add: train_args_def small_cli_def)
  have n3: "n_train c = 3" unfolding nc a small_sizes by simp
  have b2: "batch_size c = 2" unfolding bc a by simp
  have z: "n_train c div (200 * batch_size c) = 0" unfolding n3 b2 by simp
  have prep: "\<exists>c ld. prepare_training ?e ?m ?a = Inr (c, ld)
         \<and> n_train c = 3 \<and> batch_size c = 2 \<and> n_train c div (200 * batch_size c) = 0"
    using p n3 b2 z by blast
  have t: "raised ?t = None" "global_step (final_state ?t) = 2"
    unfolding small_good_run by simp_all
  note th2 = validation_cadence[where ctx = c and loader = "epoch_batches ?e ld"
      and es = "[1..epochs ?a]" and ev = ?e and m = ?m and a = ?a]
  have zz: "n_train c div (200 * batch_size c) = 0 \<longrightarrow>
      round_events (trace (final_state (train_epochs c (epoch_batches ?e ld) initial_state [1..epochs ?a]))) = []"
    using th2 by (elim conjE) assumption
  have second: "round_events (trace (final_state ?t)) = []"
    unfolding te using zz z by blast
  show ?thesis by (intro conjI n d first g prep t second)
qed


text \<open>
  The same for a call of \<^verbatim>\<open>train_model\<close> that ends normally, with the \<open>n_train\<close> of the
  split and the batch size of the call.
\<close>

lemma train_model_cadence:
  assumes "train_model ev m a = Inr s'"
  shows "evaluate_steps (trace s') =
           filter (\<lambda>g. 0 < fst (split_sizes (float_round ev) (dataset_len ev) (val_percent a))
                          div (200 * arg_batch_size a)
                      \<and> g mod (fst (split_sizes (float_round ev) (dataset_len ev) (val_percent a))
                          div (200 * arg_batch_size a)) = 0)
             [1..global_step s']"
proof -
  obtain ctx :: "'a loop_ctx" and train_loader where
    p: "prepare_training ev m a = Inr (ctx, train_loader)"
    and r: "train_epochs ctx (epoch_batches ev train_loader) initial_state [1..epochs a] = Inr s'"
    using assms by (auto simp: train_model_def split: prod.splits sum.splits)
  have n: "n_train ctx = fst (split_sizes (float_round ev) (dataset_len ev) (val_percent a))"
    and b: "batch_size ctx = arg_batch_size a"
    using prepare_training_context[OF p] by simp_all
  have i: "global_step (initial_state :: 'a train_state) = 0"
       "evaluate_steps (trace (initial_state :: 'a train_state)) = []"
    by (simp_all add: initial_state_def evaluate_steps_def)
  have d: "due ctx = (\<lambda>g. 0 < fst (split_sizes (float_round ev) (dataset_len ev) (val_percent a))
                          div (200 * arg_batch_size a)
                      \<and> g mod (fst (split_sizes (float_round ev) (dataset_len ev) (val_percent a))
                          div (200 * arg_batch_size a)) = 0)"
    by (rule ext) (simp add: due_def n b)
  from train_epochs_steps[OF r] show ?thesis unfolding i d by simp
qed

lemma evaluate_steps_round_events: "evaluate_steps (round_events tr) = evaluate_steps tr"
proof (induction tr)
  case Nil
  then show ?case by (simp add: round_events_def)
next
  case (Cons ev tr)
  have "evaluate_steps (round_events [ev]) = evaluate_steps [ev]"
    by (cases ev) (simp_all add: round_events_def evaluate_steps_def)
  then show ?case
    using Cons round_events_append[of "[ev]" tr] evaluate_steps_append[of "[ev]" tr]
      evaluate_steps_append[of "round_events [ev]" "round_events tr"] by simp
qed

lemma evaluate_steps_round_of:
  "g' \<in> set (evaluate_steps (round_of ctx g epoch b)) \<Longrightarrow> g' = g"
  by (cases "histograms b"; cases "evaluate b"; cases "diag_log b")
     (simp_all add: round_of_def evaluate_steps_def)

lemma evaluate_steps_expected:
  "g' \<in> set (evaluate_steps (expected_rounds ctx g sched)) \<Longrightarrow> g < g' \<and> due ctx g'"
proof (induction sched arbitrary: g)
  case Nil
  then show ?case by (simp add: evaluate_steps_def)
next
  case (Cons x sched)
  obtain epoch b where x: "x = (epoch, b)" by (cases x)
  let ?P = "if due ctx (g + 1) then round_of ctx (g + 1) epoch b else []"
  have "g' \<in> set (evaluate_steps ?P) \<or> g' \<in> set (evaluate_steps (expected_rounds ctx (g + 1) sched))"
    using Cons.prems unfolding x by (simp add: evaluate_steps_append)
  then show ?case
  proof
    assume a: "g' \<in> set (evaluate_steps ?P)"
    then have du: "due ctx (g + 1)" by (cases "due ctx (g + 1)") (simp_all add: evaluate_steps_def)
    then have "g' = g + 1" using a evaluate_steps_round_of[of g' ctx "g + 1" epoch b] by simp
    then show ?thesis using du by simp
  next
    assume "g' \<in> set (evaluate_steps (expected_rounds ctx (g + 1) sched))"
    from Cons.IH[OF this] show ?thesis by simp
  qed
qed

lemma train_epochs_rounds_due:
  assumes "g \<in> set (evaluate_steps (trace (final_state (train_epochs ctx loader initial_state es))))"
  shows "0 < g \<and> due ctx g"
proof -
  let ?r = "train_epochs ctx loader initial_state es"
  obtain rest where r: "round_events (trace (final_state ?r)) @ rest
      = expected_rounds ctx 0 (schedule loader es)"
    using train_epochs_rounds[of ctx loader initial_state es] unfolding initial_rounds
    by (auto simp del: append_eq_append_conv)
  have "g \<in> set (evaluate_steps (round_events (trace (final_state ?r))))"
    using assms unfolding evaluate_steps_round_events .
  then have "g \<in> set (evaluate_steps (round_events (trace (final_state ?r)) @ rest))"
    by (simp add: evaluate_steps_append)
  then show ?thesis unfolding r by (rule evaluate_steps_expected)
qed

text \<open>
  Claim C10. The counter starts at 0; a batch that is processed adds exactly 1 to it, and
  an epoch that is processed adds the number of its batches, whatever the counter was
  before. So at the end of a run that ends normally it is the number of batches the loader
  yielded in all epochs together, the validation routine was called at exactly the due
  steps among 1 to that number, and the rounds are those of the batches taken in the order
  of the whole run, each at its run-wide count. In every run, also one that raises, the
  counter is the number of optimizer steps taken, every record and every call of the
  validation routine carries the number of optimizer steps taken before it, and every
  step at which the validation routine was called is a positive multiple of
  \<open>division_step\<close>. A call of \<^verbatim>\<open>train_model\<close> that ends normally leaves the counter at
  the number of batches that the passes over its training loader yielded in all its
  epochs.
\<close>

theorem global_step_counts_batches:
  fixes ctx :: "'t loop_ctx"
  shows "global_step (initial_state :: 't train_state) = 0
   \<and> (\<forall>s'. train_batch ctx epoch s b = Inr s' \<longrightarrow> global_step s' = global_step s + 1)
   \<and> (\<forall>s'. train_epoch ctx epoch s bs = Inr s' \<longrightarrow> global_step s' = global_step s + int (length bs))
   \<and> global_step (final_state (train_epochs ctx loader initial_state es))
       = int (optimizer_steps (trace (final_state (train_epochs ctx loader initial_state es))))
   \<and> steps_consistent 0 (trace (final_state (train_epochs ctx loader initial_state es)))
   \<and> (\<forall>g \<in> set (evaluate_steps (trace (final_state (train_epochs ctx loader initial_state es)))).
         0 < g \<and> 0 < n_train ctx div (200 * batch_size ctx)
       \<and> g mod (n_train ctx div (200 * batch_size ctx)) = 0)
   \<and> (raised (train_epochs ctx loader initial_state es) = None \<longrightarrow>
        global_step (final_state (train_epochs ctx loader initial_state es))
          = (\<Sum>e\<leftarrow>es. int (length (loader e)))
      \<and> evaluate_steps (trace (final_state (train_epochs ctx loader initial_state es)))
          = filter (\<lambda>g. 0 < n_train ctx div (200 * batch_size ctx)
                       \<and> g mod (n_train ctx div (200 * batch_size ctx)) = 0)
              [1..(\<Sum>e\<leftarrow>es. int (length (loader e)))]
      \<and> round_events (trace (final_state (train_epochs ctx loader initial_state es)))
          = expected_rounds ctx 0 (schedule loader es))
   \<and> global_step (final_state (train_model ev m a))
       = int (optimizer_steps (trace (final_state (train_model ev m a))))
   \<and> steps_consistent 0 (trace (final_state (train_model ev m a)))
   \<and> (\<forall>c ld. prepare_training ev m a = Inr (c, ld) \<and> raised (train_model ev m a) = None \<longrightarrow>
        global_step (final_state (train_model ev m a))
          = (\<Sum>e\<leftarrow>[1..epochs a].
               int (length (iterate ld (epoch_order ev e (length (ld_dataset ld)))))))"
proof -
  let ?r = "train_epochs ctx loader (initial_state :: 't train_state) es"
  have d: "due ctx = (\<lambda>g. 0 < n_train ctx div (200 * batch_size ctx)
                      \<and> g mod (n_train ctx div (200 * batch_size ctx)) = 0)"
    by (rule ext) (simp add: due_def)
  have 0: "global_step (initial_state :: 't train_state) = 0" by (simp add: initial_state_def)
  have b: "\<forall>s'. train_batch ctx epoch s b = Inr s' \<longrightarrow> global_step s' = global_step s + 1"
    using train_batch_steps[of ctx epoch s b] by blast
  have e: "\<forall>s'. train_epoch ctx epoch s bs = Inr s' \<longrightarrow> global_step s' = global_step s + int (length bs)"
    using train_epoch_steps[of ctx epoch s bs] by blast
  have 1: "step_invariant (final_state ?r)"
    by (rule invariant_train_epochs[OF invariant_initial])
  have 2: "step_invariant (final_state (train_model ev m a))"
    by (rule invariant_train_model)
  have t: "\<forall>g \<in> set (evaluate_steps (trace (final_state ?r))).
         0 < g \<and> 0 < n_train ctx div (200 * batch_size ctx)
       \<and> g mod (n_train ctx div (200 * batch_size ctx)) = 0"
  proof
    fix g assume "g \<in> set (evaluate_steps (trace (final_state ?r)))"
    then have "0 < g \<and> due ctx g" by (rule train_epochs_rounds_due)
    then show "0 < g \<and> 0 < n_train ctx div (200 * batch_size ctx)
       \<and> g mod (n_train ctx div (200 * batch_size ctx)) = 0"
      unfolding due_def .
  qed
  have i1: "global_step (final_state ?r) = int (optimizer_steps (trace (final_state ?r)))"
    and c1: "steps_consistent 0 (trace (final_state ?r))"
    using 1 unfolding step_invariant_def by simp_all
  have i2: "global_step (final_state (train_model ev m a))
       = int (optimizer_steps (trace (final_state (train_model ev m a))))"
    and c2: "steps_consistent 0 (trace (final_state (train_model ev m a)))"
    using 2 unfolding step_invariant_def by simp_all
  have ok: "raised ?r = None \<longrightarrow>
        global_step (final_state ?r) = (\<Sum>e\<leftarrow>es. int (length (loader e)))
      \<and> evaluate_steps (trace (final_state ?r))
          = filter (\<lambda>g. 0 < n_train ctx div (200 * batch_size ctx)
                       \<and> g mod (n_train ctx div (200 * batch_size ctx)) = 0)
              [1..(\<Sum>e\<leftarrow>es. int (length (loader e)))]
      \<and> round_events (trace (final_state ?r)) = expected_rounds ctx 0 (schedule loader es)"
  proof
    assume "raised ?r = None"
    then have r: "?r = Inr (final_state ?r)" by (rule raised_None)
    have x: "round_events (trace (final_state ?r)) = expected_rounds ctx 0 (schedule loader es)"
      using train_epochs_rounds_ok[OF r] unfolding initial_rounds by simp
    from train_epochs_steps[OF r] have
      y: "global_step (final_state ?r) = (\<Sum>e\<leftarrow>es. int (length (loader e)))"
      and z: "evaluate_steps (trace (final_state ?r)) = filter (due ctx) [1..global_step (final_state ?r)]"
      unfolding initial_rounds by simp_all
    show "global_step (final_state ?r) = (\<Sum>e\<leftarrow>es. int (length (loader e)))
      \<and> evaluate_steps (trace (final_state ?r))
          = filter (\<lambda>g. 0 < n_train ctx div (200 * batch_size ctx)
                       \<and> g mod (n_train ctx div (200 * batch_size ctx)) = 0)
              [1..(\<Sum>e\<leftarrow>es. int (length (loader e)))]
      \<and> round_events (trace (final_state ?r)) = expected_rounds ctx 0 (schedule loader es)"
      using x y z unfolding d by simp
  qed
  have tm: "\<forall>c ld. prepare_training ev m a = Inr (c, ld) \<and> raised (train_model ev m a) = None \<longrightarrow>
        global_step (final_state (train_model ev m a))
          = (\<Sum>e\<leftarrow>[1..epochs a].
               int (length (iterate ld (epoch_order ev e (length (ld_dataset ld))))))"
  proof (intro allI impI)
    fix c ld
    assume h: "prepare_training ev m a = Inr (c, ld) \<and> raised (train_model ev m a) = None"
    let ?t = "train_epochs c (epoch_batches ev ld) initial_state [1..epochs a]"
    have te: "train_model ev m a = ?t" using h by (simp add: train_model_def)
    have "raised ?t = None" using h unfolding te by simp
    then have r: "?t = Inr (final_state ?t)" by (rule raised_None)
    have l: "\<And>e. int (length (epoch_batches ev ld e))
        = int (length (iterate ld (epoch_order ev e (length (ld_dataset ld)))))"
      by (simp add: epoch_batches_def)
    show "global_step (final_state (train_model ev m a))
          = (\<Sum>e\<leftarrow>[1..epochs a].
               int (length (iterate ld (epoch_order ev e (length (ld_dataset ld))))))"
      using train_epochs_steps[OF r] unfolding te initial_rounds l by simp
  qed
  show ?thesis by (intro conjI 0 b e i1 c1 t ok i2 c2 tm)
qed

text \<open>
  With \<open>division_step = 2\<close>: one batch brings the counter from 0 to 1 and an epoch of
  three batches brings it to 3; after two such epochs it is \<open>3 + 3\<close>, and the round at
  step 4 is logged for epoch 2, whose first batch it follows. And the small call of
  \<^verbatim>\<open>train_model\<close>: one epoch, in which the training loader yields two batches.
\<close>

theorem global_step_counts_batches_witness:
  "(\<exists>s'. train_batch cadence_ctx 1 initial_state (plain_batch (Inr ''logits'')) = Inr s'
        \<and> global_step s' = global_step (initial_state :: string train_state) + 1)
   \<and> (\<exists>s'. train_epoch cadence_ctx 1 initial_state
           [plain_batch (Inr ''logits''), plain_batch (Inr ''logits''), plain_batch (Inr ''logits'')] = Inr s'
        \<and> global_step s' = global_step (initial_state :: string train_state) + 3)
   \<and> raised (train_epochs cadence_ctx
      (\<lambda>epoch. [plain_batch (Inr ''logits''), plain_batch (Inr ''logits''), plain_batch (Inr ''logits'')])
      initial_state [1, 2]) = None
   \<and> global_step (final_state (train_epochs cadence_ctx
      (\<lambda>epoch. [plain_batch (Inr ''logits''), plain_batch (Inr ''logits''), plain_batch (Inr ''logits'')])
      initial_state [1, 2])) = 3 + 3
   \<and> evaluate_steps (trace (final_state (train_epochs cadence_ctx
      (\<lambda>epoch. [plain_batch (Inr ''logits''), plain_batch (Inr ''logits''), plain_batch (Inr ''logits'')])
      initial_state [1, 2]))) = [2, 4, 6]
   \<and> filter (\<lambda>ev. case ev of DiagLog v g e \<Rightarrow> True | _ \<Rightarrow> False)
       (round_events (trace (final_state (train_epochs cadence_ctx
        (\<lambda>epoch. [plain_batch (Inr ''logits''), plain_batch (Inr ''logits''), plain_batch (Inr ''logits'')])
        initial_state [1, 2]))))
     = [DiagLog ''score'' 2 1, DiagLog ''score'' 4 2, DiagLog ''score'' 6 2]
   \<and> (\<exists>c ld. prepare_training (small_env (Inr ''logits'')) (DataParallel (UNet small_unet))
                 (train_args (small_cli None)) = Inr (c, ld)
         \<and> iterate ld (epoch_order (small_env (Inr ''logits'')) 1 (length (ld_dataset ld)))
             = [[2, 1], [0]]
         \<and> raised (train_model (small_env (Inr ''logits'')) (DataParallel (UNet small_unet))
                 (train_args (small_cli None))) = None
         \<and> global_step (final_state (train_model (small_env (Inr ''logits''))
                 (DataParallel (UNet small_unet)) (train_args (small_cli None)))) = 2)"
proof -
  let ?e = "small_env (Inr ''logits'')"
  let ?m = "DataParallel (UNet small_unet)"
  let ?a = "train_args (small_cli None)"
  let ?ld = "\<lparr>ld_dataset = [0, 1, 2], ld_shuffle = True, ld_drop_last = False, ld_batch_size = 2\<rparr>"
  let ?b = "plain_batch (Inr ''logits'')"
  let ?l = "\<lambda>epoch :: int. [plain_batch (Inr ''logits''), plain_batch (Inr ''logits''), plain_batch (Inr ''logits'')]"
  let ?r = "train_epochs cadence_ctx ?l initial_state [1, 2]"
  have n: "raised ?r = None" using cadence_run by simp
  have d: "n_train cadence_ctx div (200 * batch_size cadence_ctx) = 2"
    by (simp add: cadence_ctx_def)
  have u: "[1..(6::int)] = [1, 2, 3, 4, 5, 6]" by (simp add: upto_rec1)
  note th = global_step_counts_batches[where ctx = cadence_ctx and loader = ?l
      and es = "[1, 2]" and epoch = 1 and s = initial_state and b = ?b
      and bs = "[?b, ?b, ?b]" and ev = "small_env (Inr ''logits'')" and m = "DataParallel (UNet small_unet)"
      and a = "train_args (small_cli None)"]
  have tb: "\<forall>s'. train_batch cadence_ctx 1 initial_state ?b = Inr s'
        \<longrightarrow> global_step s' = global_step (initial_state :: string train_state) + 1"
    using th by (elim conjE) assumption
  have te: "\<forall>s'. train_epoch cadence_ctx 1 initial_state [?b, ?b, ?b] = Inr s'
        \<longrightarrow> global_step s' = global_step (initial_state :: string train_state) + int (length [?b, ?b, ?b])"
    using th by (elim conjE) assumption
  obtain s1 where s1: "train_batch cadence_ctx 1 (initial_state :: string train_state) ?b = Inr s1"
    by (simp add: cadence_batch Let_def)
  obtain s3 where s3: "train_epoch cadence_ctx 1 (initial_state :: string train_state) [?b, ?b, ?b] = Inr s3"
    by (simp add: train_epoch_def cadence_batch Let_def
        cadence_ctx_def[THEN arg_cong[where f = save_checkpoint]])
  have w1: "\<exists>s'. train_batch cadence_ctx 1 initial_state ?b = Inr s'
        \<and> global_step s' = global_step (initial_state :: string train_state) + 1"
    using tb s1 by blast
  have l3: "int (length [?b, ?b, ?b]) = 3" by simp
  have w3: "\<exists>s'. train_epoch cadence_ctx 1 initial_state [?b, ?b, ?b] = Inr s'
        \<and> global_step s' = global_step (initial_state :: string train_state) + 3"
    using te s3 unfolding l3 by blast
  have ok: "raised ?r = None \<longrightarrow>
        global_step (final_state ?r) = (\<Sum>e\<leftarrow>[1, 2]. int (length (?l e)))
      \<and> evaluate_steps (trace (final_state ?r))
          = filter (\<lambda>g. 0 < n_train cadence_ctx div (200 * batch_size cadence_ctx)
                       \<and> g mod (n_train cadence_ctx div (200 * batch_size cadence_ctx)) = 0)
              [1..(\<Sum>e\<leftarrow>[1, 2]. int (length (?l e)))]
      \<and> round_events (trace (final_state ?r)) = expected_rounds cadence_ctx 0 (schedule ?l [1, 2])"
    using th by (elim conjE) assumption
  have sum: "(\<Sum>e\<leftarrow>[1, 2 :: int]. int (length (?l e))) = 6" by simp
  have A: "global_step (final_state ?r) = (\<Sum>e\<leftarrow>[1, 2]. int (length (?l e)))"
    and B: "evaluate_steps (trace (final_state ?r))
          = filter (\<lambda>g. 0 < n_train cadence_ctx div (200 * batch_size cadence_ctx)
                       \<and> g mod (n_train cadence_ctx div (200 * batch_size cadence_ctx)) = 0)
              [1..(\<Sum>e\<leftarrow>[1, 2]. int (length (?l e)))]"
    and C: "round_events (trace (final_state ?r)) = expected_rounds cadence_ctx 0 (schedule ?l [1, 2])"
    using ok n by blast+
  have g: "global_step (final_state ?r) = 3 + 3" unfolding A sum by simp
  have e: "evaluate_steps (trace (final_state ?r)) = [2, 4, 6]"
    unfolding B d sum by (simp add: u)
  have f: "filter (\<lambda>ev. case ev of DiagLog v g e \<Rightarrow> True | _ \<Rightarrow> False)
       (round_events (trace (final_state ?r)))
     = [DiagLog ''score'' 2 1, DiagLog ''score'' 4 2, DiagLog ''score'' 6 2]"
    unfolding C cadence_rounds by simp
  obtain c where p: "prepare_training ?e ?m ?a = Inr (c, ?ld)"
    using small_prepare_training[of "Inr ''logits''" None] by simp
  have tn: "raised (train_model ?e ?m ?a) = None" unfolding small_good_run by simp
  have tm: "\<forall>c ld. prepare_training ?e ?m ?a = Inr (c, ld) \<and> raised (train_model ?e ?m ?a) = None \<longrightarrow>
        global_step (final_state (train_model ?e ?m ?a))
          = (\<Sum>e\<leftarrow>[1..epochs ?a].
               int (length (iterate ld (epoch_order ?e e (length (ld_dataset ld))))))"
    using th by (elim conjE) assumption
  have it: "\<And>k. iterate ?ld (epoch_order ?e k (length (ld_dataset ?ld))) = [[2, 1], [0]]"
    by (simp add: iterate_def train_order_def small_env_def Let_def upt_rec)
  have ep: "[1..epochs ?a] = [1]" by (simp add: train_args_def small_cli_def upto_rec1)
  have "global_step (final_state (train_model ?e ?m ?a))
          = (\<Sum>e\<leftarrow>[1..epochs ?a].
               int (length (iterate ?ld (epoch_order ?e e (length (ld_dataset ?ld))))))"
    using tm p tn by blast
  then have tg: "global_step (final_state (train_model ?e ?m ?a)) = 2"
    unfolding it ep by simp
  have last: "\<exists>c ld. prepare_training ?e ?m ?a = Inr (c, ld)
         \<and> iterate ld (epoch_order ?e 1 (length (ld_dataset ld))) = [[2, 1], [0]]
         \<and> raised (train_model ?e ?m ?a) = None
         \<and> global_step (final_state (train_model ?e ?m ?a)) = 2"
    by (rule exI[where x = c], rule exI[where x = ?ld]) (intro conjI p it tn tg)
  show ?thesis by (intro conjI w1 w3 n g e f last)
qed

lemma train_batches_append:
  "train_batches ctx epoch s (pre @ rest) =
     (case train_batches ctx epoch s pre of
        Inl x \<Rightarrow> Inl x
      | Inr s1 \<Rightarrow> train_batches ctx epoch s1 rest)"
  by (induction pre arbitrary: s) (auto split: sum.splits)

lemma assert_failure_cases:
  "assert_failure m = AssertionError \<or> assert_failure m = AttributeError"
  by (cases m) (simp_all add: assert_failure_def)

text \<open>
  Claim C8. When the batches before it were processed normally, a batch whose channel count
  differs from \<^verbatim>\<open>model.module.n_channels\<close> ends the loop with the exception of the failing
  \<^verbatim>\<open>assert\<close>, in the state the batches before it left: no forward pass is made for it.
  For a batch whose channel count is the model's, the loop body runs as if there were no
  \<^verbatim>\<open>assert\<close>.
\<close>

theorem channel_guard:
  assumes "module_n_channels (model ctx) = Inr c"
    and "train_batches ctx epoch s pre = Inr s1"
  shows "(channels b \<noteq> c \<longrightarrow>
            train_batches ctx epoch s (pre @ b # post) = Inl (assert_failure (model ctx), s1)
          \<and> (assert_failure (model ctx) = AssertionError \<or> assert_failure (model ctx) = AttributeError))
       \<and> (channels b = c \<longrightarrow> train_batch ctx epoch s1 b = batch_body ctx epoch s1 b)"
proof -
  have m: "channels b \<noteq> c \<Longrightarrow> train_batch ctx epoch s1 b = Inl (assert_failure (model ctx), s1)"
    using assms(1) by (simp add: train_batch_def)
  have e: "channels b = c \<Longrightarrow> train_batch ctx epoch s1 b = batch_body ctx epoch s1 b"
    using assms(1) by (simp add: train_batch_def)
  have p: "channels b \<noteq> c \<Longrightarrow>
      train_batches ctx epoch s (pre @ b # post) = Inl (assert_failure (model ctx), s1)"
    unfolding train_batches_append assms(2) using m by simp
  show ?thesis using p e assert_failure_cases[of "model ctx"] by blast
qed

text \<open>
  A batch of one channel for a model of three, after one good batch. The model is the
  wrapper, so the exception is the \<^verbatim>\<open>AttributeError\<close> of formatting the message.
\<close>

theorem channel_guard_witness:
  "train_batches cadence_ctx 1 initial_state
     [plain_batch (Inr ''logits''), (plain_batch (Inr ''logits''))\<lparr>channels := 1\<rparr>, plain_batch (Inr ''logits'')]
     = Inl (AttributeError,
         \<lparr>global_step = 1,
          trace = [ForwardPass,
                   OptimizerStep (compute_loss text_ops CrossEntropyLoss 2 ''logits'' ''masks''),
                   TrainLog (compute_loss text_ops CrossEntropyLoss 2 ''logits'' ''masks'') 1 1]\<rparr>)
   \<and> train_batch cadence_ctx 1 initial_state (plain_batch (Inr ''logits''))
     = batch_body cadence_ctx 1 initial_state (plain_batch (Inr ''logits''))"
proof -
  let ?ok = "plain_batch (Inr ''logits'')"
  let ?s1 = "\<lparr>global_step = 1,
          trace = [ForwardPass,
                   OptimizerStep (compute_loss text_ops CrossEntropyLoss 2 ''logits'' ''masks''),
                   TrainLog (compute_loss text_ops CrossEntropyLoss 2 ''logits'' ''masks'') 1 1]\<rparr>"
  have h1: "module_n_channels (model cadence_ctx) = Inr 3"
    by (simp add: cadence_ctx_def module_n_channels_def small_unet_def)
  have h2: "train_batches cadence_ctx 1 initial_state [?ok] = Inr ?s1"
    by (simp add: cadence_batch Let_def initial_state_def)
  have h0: "train_batches cadence_ctx 1 initial_state [] = Inr initial_state" by simp
  have c1: "channels (?ok\<lparr>channels := 1\<rparr>) \<noteq> 3" by simp
  have c2: "channels ?ok = 3" by (simp add: plain_batch_def)
  have a: "assert_failure (model cadence_ctx) = AttributeError"
    by (simp add: assert_failure_def cadence_ctx_def)
  show ?thesis
    using channel_guard[OF h1 h2, of "?ok\<lparr>channels := 1\<rparr>" "[?ok]"]
      channel_guard[OF h1 h0, of ?ok "[]"] c1 c2 a
    by simp
qed

section \<open>Failures of the extended log record\<close>

lemma same_emit:
  "same_but_diag s1 s2 \<Longrightarrow> same_but_diag (emit ev s1) (emit ev s2)"
  by (simp add: same_but_diag_def emit_def non_diag_append)

lemma same_log_diagnostics:
  "same_but_diag s1 s2 \<Longrightarrow>
   same_but_diag (log_diagnostics v epoch s1 b1) (log_diagnostics v epoch s2 b2)"
  by (cases "diag_log b1"; cases "diag_log b2")
     (simp_all add: log_diagnostics_def same_but_diag_def emit_def non_diag_append non_diag_def)

lemma same_outcome_Inl:
  "same_but_diag s1 s2 \<Longrightarrow> same_outcome (Inl (e, s1)) (Inl (e, s2))"
  by (simp add: same_outcome_def)

lemma same_outcome_Inr:
  "same_but_diag s1 s2 \<Longrightarrow> same_outcome (Inr s1) (Inr s2)"
  by (simp add: same_outcome_def)

lemma same_evaluation_round:
  assumes "same_but_diag s1 s2"
  shows "same_outcome (evaluation_round ctx epoch s1 (b\<lparr>diag_log := x\<rparr>))
                      (evaluation_round ctx epoch s2 (b\<lparr>diag_log := y\<rparr>))"
proof -
  have g: "global_step s1 = global_step s2" using assms by (simp add: same_but_diag_def)
  have g1: "global_step (emit BuildHistograms s1) = global_step (emit BuildHistograms s2)"
    using g by (simp add: emit_def)
  have 1: "same_but_diag (emit BuildHistograms s1) (emit BuildHistograms s2)"
    by (rule same_emit[OF assms])
  have 2: "same_but_diag
      (emit (Evaluate (global_step (emit BuildHistograms s1)) (val_batches ctx)) (emit BuildHistograms s1))
      (emit (Evaluate (global_step (emit BuildHistograms s2)) (val_batches ctx)) (emit BuildHistograms s2))"
    unfolding g1 by (rule same_emit[OF 1])
  show ?thesis
  proof (cases "histograms b")
    case (Some e)
    then show ?thesis using 1 by (simp add: evaluation_round_def Let_def same_outcome_Inl)
  next
    case None
    show ?thesis
    proof (cases "evaluate b")
      case (Inl e)
      then show ?thesis using None 2 by (simp add: evaluation_round_def Let_def same_outcome_Inl)
    next
      case (Inr v)
      then show ?thesis using None
        by (simp add: evaluation_round_def Let_def same_outcome_Inr same_log_diagnostics same_emit[OF 2])
    qed
  qed
qed

lemma same_after_step:
  assumes "same_but_diag s1 s2"
  shows "same_outcome (after_step ctx epoch loss s1 (b\<lparr>diag_log := x\<rparr>))
                      (after_step ctx epoch loss s2 (b\<lparr>diag_log := y\<rparr>))"
proof -
  have g: "global_step s1 = global_step s2" using assms by (simp add: same_but_diag_def)
  let ?t1 = "s1\<lparr>global_step := global_step s1 + 1\<rparr>"
  let ?t2 = "s2\<lparr>global_step := global_step s2 + 1\<rparr>"
  have 1: "same_but_diag ?t1 ?t2" using assms by (simp add: same_but_diag_def)
  have 2: "same_but_diag (emit (TrainLog loss (global_step ?t1) epoch) ?t1)
                         (emit (TrainLog loss (global_step ?t2) epoch) ?t2)"
    using same_emit[OF 1, where ev = "TrainLog loss (global_step ?t1) epoch"] g by simp
  have gg: "global_step (emit (TrainLog loss (global_step ?t1) epoch) ?t1)
          = global_step (emit (TrainLog loss (global_step ?t2) epoch) ?t2)"
    using g by (simp add: emit_def)
  show ?thesis
  proof (cases "train_log b")
    case (Some e)
    then show ?thesis using 1 by (simp add: after_step_def Let_def same_outcome_Inl)
  next
    case None
    show ?thesis
      using None 2 gg same_evaluation_round[OF 2, where ctx = ctx and epoch = epoch and b = b and x = x and y = y]
      by (simp add: after_step_def Let_def same_outcome_Inl same_outcome_Inr)
  qed
qed

lemma same_batch_body:
  assumes "same_but_diag s1 s2"
  shows "same_outcome (batch_body ctx epoch s1 (b\<lparr>diag_log := x\<rparr>))
                      (batch_body ctx epoch s2 (b\<lparr>diag_log := y\<rparr>))"
proof -
  have 1: "same_but_diag (emit ForwardPass s1) (emit ForwardPass s2)"
    by (rule same_emit[OF assms])
  show ?thesis
    using 1 same_after_step[OF same_emit[OF 1], where ctx = ctx and epoch = epoch and b = b and x = x and y = y]
    by (simp add: batch_body_def Let_def same_outcome_Inl split: sum.splits option.splits)
qed

lemma same_train_batch:
  assumes "same_but_diag s1 s2"
  shows "same_outcome (train_batch ctx epoch s1 (b\<lparr>diag_log := x\<rparr>))
                      (train_batch ctx epoch s2 (b\<lparr>diag_log := y\<rparr>))"
  using assms same_batch_body[OF assms, where ctx = ctx and epoch = epoch and b = b and x = x and y = y]
  by (simp add: train_batch_def same_outcome_Inl split: sum.splits)

lemma same_outcome_cases:
  assumes "same_outcome r1 r2"
  shows "(\<exists>e t1 t2. r1 = Inl (e, t1) \<and> r2 = Inl (e, t2) \<and> same_but_diag t1 t2)
       \<or> (\<exists>t1 t2. r1 = Inr t1 \<and> r2 = Inr t2 \<and> same_but_diag t1 t2)"
proof (cases r1)
  case (Inl p1)
  obtain e1 t1 where p1: "p1 = (e1, t1)" by (cases p1)
  show ?thesis
  proof (cases r2)
    case (Inl p2)
    obtain e2 t2 where p2: "p2 = (e2, t2)" by (cases p2)
    show ?thesis using assms \<open>r1 = Inl p1\<close> Inl p1 p2 by (simp add: same_outcome_def)
  next
    case (Inr t2)
    show ?thesis using assms \<open>r1 = Inl p1\<close> Inr p1 by (simp add: same_outcome_def)
  qed
next
  case (Inr t1)
  show ?thesis
  proof (cases r2)
    case (Inl p2)
    obtain e2 t2 where p2: "p2 = (e2, t2)" by (cases p2)
    show ?thesis using assms \<open>r1 = Inr t1\<close> Inl p2 by (simp add: same_outcome_def)
  next
    case (Inr t2)
    show ?thesis using assms \<open>r1 = Inr t1\<close> Inr by (simp add: same_outcome_def)
  qed
qed

lemma same_train_batches:
  "same_but_diag s1 s2 \<Longrightarrow>
   same_outcome (train_batches ctx epoch s1 (map (\<lambda>b. b\<lparr>diag_log := f b\<rparr>) bs))
                (train_batches ctx epoch s2 (map (\<lambda>b. b\<lparr>diag_log := g b\<rparr>) bs))"
proof (induction bs arbitrary: s1 s2)
  case Nil
  then show ?case by (simp add: same_outcome_Inr)
next
  case (Cons b bs)
  from same_outcome_cases[OF same_train_batch[OF Cons.prems, where ctx = ctx and epoch = epoch and b = b and x = "f b" and y = "g b"]]
  show ?case
  proof
    assume "\<exists>e t1 t2. train_batch ctx epoch s1 (b\<lparr>diag_log := f b\<rparr>) = Inl (e, t1)
        \<and> train_batch ctx epoch s2 (b\<lparr>diag_log := g b\<rparr>) = Inl (e, t2) \<and> same_but_diag t1 t2"
    then show ?thesis by (auto simp: same_outcome_Inl)
  next
    assume "\<exists>t1 t2. train_batch ctx epoch s1 (b\<lparr>diag_log := f b\<rparr>) = Inr t1
        \<and> train_batch ctx epoch s2 (b\<lparr>diag_log := g b\<rparr>) = Inr t2 \<and> same_but_diag t1 t2"
    then show ?thesis using Cons.IH by auto
  qed
qed

lemma same_train_epoch:
  assumes "same_but_diag s1 s2"
  shows "same_outcome (train_epoch ctx epoch s1 (map (\<lambda>b. b\<lparr>diag_log := f b\<rparr>) bs))
                      (train_epoch ctx epoch s2 (map (\<lambda>b. b\<lparr>diag_log := g b\<rparr>) bs))"
proof -
  from same_outcome_cases[OF same_train_batches[OF same_emit[OF assms], where ctx = ctx and epoch = epoch and f = f and bs = bs and g = g]]
  show ?thesis
  proof
    assume "\<exists>e t1 t2. train_batches ctx epoch (emit ModelTrain s1) (map (\<lambda>b. b\<lparr>diag_log := f b\<rparr>) bs) = Inl (e, t1)
        \<and> train_batches ctx epoch (emit ModelTrain s2) (map (\<lambda>b. b\<lparr>diag_log := g b\<rparr>) bs) = Inl (e, t2)
        \<and> same_but_diag t1 t2"
    then show ?thesis by (auto simp: train_epoch_def same_outcome_Inl)
  next
    assume "\<exists>t1 t2. train_batches ctx epoch (emit ModelTrain s1) (map (\<lambda>b. b\<lparr>diag_log := f b\<rparr>) bs) = Inr t1
        \<and> train_batches ctx epoch (emit ModelTrain s2) (map (\<lambda>b. b\<lparr>diag_log := g b\<rparr>) bs) = Inr t2
        \<and> same_but_diag t1 t2"
    then show ?thesis by (auto simp: train_epoch_def same_outcome_Inr same_emit)
  qed
qed

lemma same_train_epochs:
  "same_but_diag s1 s2 \<Longrightarrow>
   same_outcome (train_epochs ctx (\<lambda>e. map (\<lambda>b. b\<lparr>diag_log := f e b\<rparr>) (loader e)) s1 es)
                (train_epochs ctx (\<lambda>e. map (\<lambda>b. b\<lparr>diag_log := g e b\<rparr>) (loader e)) s2 es)"
proof (induction es arbitrary: s1 s2)
  case Nil
  then show ?case by (simp add: same_outcome_Inr)
next
  case (Cons e es)
  from same_outcome_cases[OF same_train_epoch[OF Cons.prems, where ctx = ctx and epoch = e and f = "f e" and bs = "loader e" and g = "g e"]]
  show ?case
  proof
    assume "\<exists>x t1 t2. train_epoch ctx e s1 (map (\<lambda>b. b\<lparr>diag_log := f e b\<rparr>) (loader e)) = Inl (x, t1)
        \<and> train_epoch ctx e s2 (map (\<lambda>b. b\<lparr>diag_log := g e b\<rparr>) (loader e)) = Inl (x, t2)
        \<and> same_but_diag t1 t2"
    then show ?thesis by (auto simp: same_outcome_Inl)
  next
    assume "\<exists>t1 t2. train_epoch ctx e s1 (map (\<lambda>b. b\<lparr>diag_log := f e b\<rparr>) (loader e)) = Inr t1
        \<and> train_epoch ctx e s2 (map (\<lambda>b. b\<lparr>diag_log := g e b\<rparr>) (loader e)) = Inr t2
        \<and> same_but_diag t1 t2"
    then show ?thesis using Cons.IH by auto
  qed
qed

text \<open>
  Claim C7. The extended record of a validation round is sent inside
  \<^verbatim>\<open>try: ... except: pass\<close>: when sending it raises, whatever the exception, the state
  is left as it was, and when it does not, the record is logged. Whichever of these
  records fail in a run, the run raises what it raises when none of them fails, takes the
  same number of steps, and does everything else it does to the outside in the same order.
  The histograms are built before the \<^verbatim>\<open>try\<close>: an exception raised there is not caught,
  and ends the round and the loop with it.
\<close>

theorem diagnostic_log_failures_discarded:
  "log_diagnostics v epoch s (b\<lparr>diag_log := Some e\<rparr>) = s
   \<and> log_diagnostics v epoch s (b\<lparr>diag_log := None\<rparr>) = emit (DiagLog v (global_step s) epoch) s
   \<and> raised (train_epochs ctx (\<lambda>e. map (\<lambda>b. b\<lparr>diag_log := f e b\<rparr>) (loader e)) s es)
       = raised (train_epochs ctx (\<lambda>e. map (\<lambda>b. b\<lparr>diag_log := None\<rparr>) (loader e)) s es)
   \<and> global_step (final_state (train_epochs ctx (\<lambda>e. map (\<lambda>b. b\<lparr>diag_log := f e b\<rparr>) (loader e)) s es))
       = global_step (final_state (train_epochs ctx (\<lambda>e. map (\<lambda>b. b\<lparr>diag_log := None\<rparr>) (loader e)) s es))
   \<and> non_diag (trace (final_state (train_epochs ctx (\<lambda>e. map (\<lambda>b. b\<lparr>diag_log := f e b\<rparr>) (loader e)) s es)))
       = non_diag (trace (final_state (train_epochs ctx (\<lambda>e. map (\<lambda>b. b\<lparr>diag_log := None\<rparr>) (loader e)) s es)))
   \<and> evaluation_round ctx epoch s (b\<lparr>histograms := Some e\<rparr>) = Inl (e, emit BuildHistograms s)"
proof -
  have r: "same_but_diag s s" by (simp add: same_but_diag_def)
  have l: "log_diagnostics v epoch s (b\<lparr>diag_log := Some e\<rparr>) = s"
    by (simp add: log_diagnostics_def)
  have n: "log_diagnostics v epoch s (b\<lparr>diag_log := None\<rparr>) = emit (DiagLog v (global_step s) epoch) s"
    by (simp add: log_diagnostics_def)
  have h: "evaluation_round ctx epoch s (b\<lparr>histograms := Some e\<rparr>) = Inl (e, emit BuildHistograms s)"
    by (simp add: evaluation_round_def Let_def)
  show ?thesis
    using same_train_epochs[OF r, where ctx = ctx and f = f and loader = loader and es = es and g = "\<lambda>e b. None"] l n h
    unfolding same_outcome_def same_but_diag_def by simp
qed

text \<open>
  A failure while the histograms are built is not discarded. With \<open>division_step = 2\<close>,
  the second batch of the first epoch has a round; building its histograms raises, and the
  run ends there with that exception: the validation routine is not called, the third
  batch and the second epoch never run.
\<close>

theorem histogram_failure_aborts:
  "train_epochs cadence_ctx
     (\<lambda>epoch. [plain_batch (Inr ''logits''),
               (plain_batch (Inr ''logits''))\<lparr>histograms := Some (OtherException ''TypeError'')\<rparr>,
               plain_batch (Inr ''logits'')])
     initial_state [1, 2]
   = Inl (OtherException ''TypeError'',
       \<lparr>global_step = 2,
        trace = [ModelTrain,
                 ForwardPass,
                 OptimizerStep (compute_loss text_ops CrossEntropyLoss 2 ''logits'' ''masks''),
                 TrainLog (compute_loss text_ops CrossEntropyLoss 2 ''logits'' ''masks'') 1 1,
                 ForwardPass,
                 OptimizerStep (compute_loss text_ops CrossEntropyLoss 2 ''logits'' ''masks''),
                 TrainLog (compute_loss text_ops CrossEntropyLoss 2 ''logits'' ''masks'') 2 1,
                 BuildHistograms]\<rparr>)"
  by (simp add: train_epoch_def train_batch_def batch_body_def after_step_def evaluation_round_def
      emit_def cadence_ctx_def plain_batch_def small_classes small_channels Let_def
      initial_state_def)

end
